theory Spec2Isabelle
  imports Main "HOL-Library.Word" "HOL-Library.AList"
begin

section \<open>Go primitives used by the compiler\<close>

text \<open>
  Go's \<open>byte\<close> is an unsigned 8-bit integer; the conversion \<open>byte(x)\<close> of an integer
  variable keeps the low eight bits. Go's \<open>int\<close> and \<open>int64\<close> are modelled as \<open>int\<close>:
  the only values the compiler computes with are buffer lengths and the results of
  \<open>strconv.ParseInt\<close>, which stay inside the 64-bit range, and every operation on them
  (\<open>%\<close>, \<open>-\<close>, \<open>/\<close> with the divisor 256) moves towards zero.
\<close>

type_synonym byte = "8 word"

definition byte :: "int \<Rightarrow> byte" where
  "byte i = word_of_int i"

text \<open>Go's \<open>/\<close> and \<open>%\<close> on integers truncate towards zero.\<close>

definition go_quot :: "int \<Rightarrow> int \<Rightarrow> int" where
  "go_quot a b = sgn a * sgn b * (\<bar>a\<bar> div \<bar>b\<bar>)"

definition go_rem :: "int \<Rightarrow> int \<Rightarrow> int" where
  "go_rem a b = a - b * go_quot a b"

text \<open>Indexing a \<open>map[string]int\<close>: the zero value when the key is absent.\<close>

definition go_map_index :: "(string \<rightharpoonup> int) \<Rightarrow> string \<Rightarrow> int" where
  "go_map_index m k = (case m k of None \<Rightarrow> 0 | Some v \<Rightarrow> v)"

text \<open>\<open>strings.HasPrefix\<close> and \<open>strings.TrimPrefix\<close>.\<close>

definition strings_HasPrefix :: "string \<Rightarrow> string \<Rightarrow> bool" where
  "strings_HasPrefix s pre = (take (length pre) s = pre)"

definition strings_TrimPrefix :: "string \<Rightarrow> string \<Rightarrow> string" where
  "strings_TrimPrefix s pre = (if strings_HasPrefix s pre then drop (length pre) s else s)"

subsection \<open>strconv\<close>

text \<open>
  \<open>strconv.ParseUint\<close>, \<open>strconv.ParseInt\<close> and \<open>strconv.Atoi\<close> of Go's standard library,
  for the bit size 64 (unsigned 64-bit values as \<open>int\<close>), following the library's own loop: an optional sign, for the base
  argument 0 a base prefix (\<open>0x\<close>, \<open>0o\<close>, \<open>0b\<close>, or a leading \<open>0\<close> for octal) and
  underscores between digits, a syntax error with the value 0 on any other character, and
  a range error with the nearest representable value on overflow.
\<close>

datatype strconv_error = ErrSyntax | ErrRange | ErrBase

definition lower :: "nat \<Rightarrow> nat" where
  \<comment> \<open>\<open>c | ('x' - 'X')\<close>: sets bit 5 of the character code\<close>
  "lower c = (if (c div 32) mod 2 = 0 then c + 32 else c)"

definition digit_of :: "char \<Rightarrow> nat option" where
  "digit_of ch =
     (let c = (of_char ch :: nat) in
      if 48 \<le> c \<and> c \<le> 57 then Some (c - 48)
      else if 97 \<le> lower c \<and> lower c \<le> 122 then Some (lower c - 97 + 10)
      else None)"

definition maxUint64 :: int where
  "maxUint64 = 2 ^ 64 - 1"

fun parse_digits :: "int \<Rightarrow> bool \<Rightarrow> int \<Rightarrow> string \<Rightarrow> int \<times> strconv_error option" where
  "parse_digits base base0 n [] = (n, None)"
| "parse_digits base base0 n (ch # cs) =
     (if ch = CHR ''_'' \<and> base0 then parse_digits base base0 n cs
      else case digit_of ch of
        None \<Rightarrow> (0, Some ErrSyntax)
      | Some d \<Rightarrow>
          if int d \<ge> base then (0, Some ErrSyntax)
          else if n \<ge> maxUint64 div base + 1 then (maxUint64, Some ErrRange)
          else if n * base + int d > maxUint64 then (maxUint64, Some ErrRange)
          else parse_digits base base0 (n * base + int d) cs)"

datatype saw = saw_start | saw_digit | saw_underscore | saw_other

fun underscore_scan :: "bool \<Rightarrow> saw \<Rightarrow> string \<Rightarrow> bool" where
  "underscore_scan hex sw [] = (sw \<noteq> saw_underscore)"
| "underscore_scan hex sw (ch # cs) =
     (let c = (of_char ch :: nat) in
      if (48 \<le> c \<and> c \<le> 57) \<or> (hex \<and> 97 \<le> lower c \<and> lower c \<le> 102)
      then underscore_scan hex saw_digit cs
      else if ch = CHR ''_''
      then (if sw \<noteq> saw_digit then False else underscore_scan hex saw_underscore cs)
      else if sw = saw_underscore then False
      else underscore_scan hex saw_other cs)"

definition underscoreOK :: "string \<Rightarrow> bool" where
  "underscoreOK s0 =
     (let s = (if length s0 \<ge> 1 \<and> (hd s0 = CHR ''-'' \<or> hd s0 = CHR ''+'') then tl s0 else s0);
          pre = (length s \<ge> 2 \<and> s ! 0 = CHR ''0'' \<and>
                 lower (of_char (s ! 1)) \<in> {of_char CHR ''b'', of_char CHR ''o'', of_char CHR ''x''})
      in if pre
         then underscore_scan (lower (of_char (s ! 1)) = of_char CHR ''x'') saw_digit (drop 2 s)
         else underscore_scan False saw_start s)"

definition strconv_ParseUint :: "string \<Rightarrow> int \<Rightarrow> int \<times> strconv_error option" where
  "strconv_ParseUint s0 base =
     (if s0 = [] then (0, Some ErrSyntax)
      else if 2 \<le> base \<and> base \<le> 36 then parse_digits base False 0 s0
      else if base = 0 then
        (let (b, s) =
           (if s0 ! 0 = CHR ''0'' then
              (if length s0 \<ge> 3 \<and> lower (of_char (s0 ! 1)) = of_char CHR ''b'' then (2, drop 2 s0)
               else if length s0 \<ge> 3 \<and> lower (of_char (s0 ! 1)) = of_char CHR ''o'' then (8, drop 2 s0)
               else if length s0 \<ge> 3 \<and> lower (of_char (s0 ! 1)) = of_char CHR ''x'' then (16, drop 2 s0)
               else (8, drop 1 s0))
            else (10, s0))
         in case parse_digits b True 0 s of
              (n, Some e) \<Rightarrow> (n, Some e)
            | (n, None) \<Rightarrow>
                if CHR ''_'' \<in> set s \<and> \<not> underscoreOK s0 then (0, Some ErrSyntax)
                else (n, None))
      else (0, Some ErrBase))"

definition strconv_ParseInt :: "string \<Rightarrow> int \<Rightarrow> int \<times> strconv_error option" where
  "strconv_ParseInt s0 base =
     (if s0 = [] then (0, Some ErrSyntax)
      else
        let neg = (s0 ! 0 = CHR ''-'');
            s = (if s0 ! 0 = CHR ''+'' \<or> s0 ! 0 = CHR ''-'' then drop 1 s0 else s0);
            (un, err) = strconv_ParseUint s base
        in if err \<noteq> None \<and> err \<noteq> Some ErrRange then (0, err)
           else if \<not> neg \<and> un \<ge> 2 ^ 63 then (2 ^ 63 - 1, Some ErrRange)
           else if neg \<and> un > 2 ^ 63 then (- (2 ^ 63), Some ErrRange)
           else (if neg then - un else un, None))"

definition strconv_Atoi :: "string \<Rightarrow> int option" where
  \<comment> \<open>\<open>None\<close> stands for a non-nil error\<close>
  "strconv_Atoi s = (case strconv_ParseInt s 10 of (i, None) \<Rightarrow> Some i | (i, Some e) \<Rightarrow> None)"

definition ParseInt0 :: "string \<Rightarrow> int" where
  \<comment> \<open>\<open>i, _ := strconv.ParseInt(s, 0, 64)\<close>: the error is discarded\<close>
  "ParseInt0 s = fst (strconv_ParseInt s 0)"

section \<open>Tokens, opcodes and the token source\<close>

text \<open>
  Modelled from the spec: the package \<open>token\<close> is imported by the compiler and is not
  among the sources. A token is a kind (end-of-stream, label, identifier, integer literal,
  string literal, comma, or one keyword per mnemonic) plus its literal text. A constant
  \<open>token.X\<close> is written \<open>token_X\<close>: \<open>token_Type\<close> has one constructor per kind the compiler
  names, and \<open>token_ILLEGAL\<close> for a kind it does not name.
\<close>

datatype token_Type =
    token_EOF | token_LABEL | token_IDENT | token_INT | token_STRING | token_COMMA
  | token_ILLEGAL
  | token_EXIT | token_INC | token_DEC | token_RANDOM | token_RET | token_CALL
  | token_IS_INTEGER | token_IS_STRING | token_STRING2INT | token_INT2STRING
  | token_SYSTEM | token_CMP | token_CONCAT | token_DB | token_DATA | token_GOTO
  | token_TRAP | token_JMP | token_JMPZ | token_JMPNZ | token_MEMCPY | token_NOP
  | token_PEEK | token_POKE | token_PUSH | token_POP | token_STORE
  | token_PRINT_INT | token_PRINT_STR
  | token_ADD | token_XOR | token_SUB | token_MUL | token_DIV | token_AND | token_OR

record Token =
  Type :: token_Type
  Literal :: string

text \<open>
  Modelled from the spec: the package \<open>opcode\<close> is not among the sources either; it maps
  each mnemonic to one fixed byte-sized constant. A constant \<open>opcode.X\<close> is written
  \<open>opcode_X\<close>. The numeric values are a parameter: every function below that names an
  opcode takes the table \<open>opc\<close>, and emits \<open>byte (opc opcode_X)\<close> where the source writes
  \<open>byte(opcode.X)\<close>.
\<close>

datatype opcode =
    opcode_EXIT | opcode_INT_STORE | opcode_INT_PRINT | opcode_INT_TOSTRING
  | opcode_INT_RANDOM | opcode_JUMP_TO | opcode_JUMP_Z | opcode_JUMP_NZ
  | opcode_XOR_OP | opcode_ADD_OP | opcode_SUB_OP | opcode_MUL_OP | opcode_DIV_OP
  | opcode_INC_OP | opcode_DEC_OP | opcode_AND_OP | opcode_OR_OP
  | opcode_STRING_STORE | opcode_STRING_PRINT | opcode_STRING_CONCAT
  | opcode_STRING_SYSTEM | opcode_STRING_TOINT
  | opcode_CMP_REG | opcode_CMP_IMMEDIATE | opcode_CMP_STRING
  | opcode_IS_STRING | opcode_IS_INTEGER
  | opcode_NOP_OP | opcode_REG_STORE | opcode_PEEK | opcode_POKE | opcode_MEMCPY
  | opcode_STACK_PUSH | opcode_STACK_POP | opcode_STACK_RET | opcode_STACK_CALL
  | opcode_TRAP_OP

text \<open>
  Modelled from the spec: the package \<open>lexer\<close> is not among the sources. The Token Source
  produces the tokens in order, one at a time; end-of-stream is a distinguished kind, not
  an error. A lexer is the list of the tokens it has yet to produce, and \<open>NextToken\<close>
  returns the end-of-stream token once the list is empty.
\<close>

type_synonym Lexer = "Token list"

definition NextToken :: "Lexer \<Rightarrow> Token \<times> Lexer" where
  "NextToken lx =
     (case lx of
        [] \<Rightarrow> (\<lparr>Type = token_EOF, Literal = []\<rparr>, [])
      | t # ts \<Rightarrow> (t, ts))"

section \<open>The compiler state\<close>

text \<open>
  What the process prints on standard output, one constructor per format string of the
  source together with the arguments formatted into it.
\<close>

datatype message =
    Register_out_of_bounds string
      \<comment> \<open>\<open>"Register out of bounds: #%s\n"\<close>\<close>
  | Unhandled_token Token
      \<comment> \<open>\<open>"Unhandled token: "\<close>, the current token\<close>
  | Possible_use_of_undefined_label string
      \<comment> \<open>\<open>"Possible use of undefined label '%s'\n"\<close>\<close>
  | Fail
      \<comment> \<open>\<open>"Fail!"\<close>\<close>
  | Invalid_thing_to_store Token
      \<comment> \<open>\<open>"ERROR: Invalid thing to store: %v\n"\<close>\<close>
  | Expected_next_token token_Type token_Type
      \<comment> \<open>\<open>"expected next token to be %s, got %s instead"\<close>\<close>

text \<open>
  The ways a run of the compiler ends without returning: \<open>os.Exit(code)\<close> and a Go
  panic. Each carries what had been printed until then; the bytecode is lost with the
  process.
\<close>

datatype error =
    Exit int "message list"
  | Panic "message list"

text \<open>
  The \<open>Compiler\<close> struct. \<open>labels\<close> is the map from label names to offsets; \<open>fixups\<close>, a
  map from offsets to label names, is kept as an association list updated by key, since
  the fixup pass ranges over it. \<open>stdout\<close> is not a field of the struct: it is the
  output printed so far, threaded with the state.
\<close>

record Compiler =
  l :: Lexer
  curToken :: Token
  peekToken :: Token
  bytecode :: "byte list"
  labels :: "string \<rightharpoonup> int"
  fixups :: "(int \<times> string) list"
  stdout :: "message list"

definition andThen :: "error + 'a \<Rightarrow> ('a \<Rightarrow> error + 'b) \<Rightarrow> error + 'b" where
  \<comment> \<open>sequencing: a statement after a call that may have ended the process\<close>
  "andThen m f = (case m of Inl e \<Rightarrow> Inl e | Inr x \<Rightarrow> f x)"

definition printf :: "message \<Rightarrow> Compiler \<Rightarrow> Compiler" where
  "printf m p = p\<lparr>stdout := stdout p @ [m]\<rparr>"

definition os_Exit :: "int \<Rightarrow> Compiler \<Rightarrow> error + 'a" where
  "os_Exit code p = Inl (Exit code (stdout p))"

definition panic :: "Compiler \<Rightarrow> error + 'a" where
  "panic p = Inl (Panic (stdout p))"

definition emit :: "byte list \<Rightarrow> Compiler \<Rightarrow> Compiler" where
  \<comment> \<open>\<open>p.bytecode = append(p.bytecode, b)\<close> for each \<open>b\<close> of \<open>bs\<close> in turn\<close>
  "emit bs p = p\<lparr>bytecode := bytecode p @ bs\<rparr>"

definition nextToken :: "Compiler \<Rightarrow> Compiler" where
  "nextToken p =
     (let (t, lx) = NextToken (l p)
      in p\<lparr>curToken := peekToken p, peekToken := t, l := lx\<rparr>)"

definition New :: "Lexer \<Rightarrow> Compiler" where
  \<comment> \<open>the two tokens of the fresh struct are replaced by the two calls of \<open>nextToken\<close>\<close>
  "New lx =
     nextToken (nextToken
       \<lparr>l = lx,
        curToken = \<lparr>Type = token_EOF, Literal = []\<rparr>,
        peekToken = \<lparr>Type = token_EOF, Literal = []\<rparr>,
        bytecode = [], labels = Map.empty, fixups = [], stdout = []\<rparr>)"

definition isRegister :: "string \<Rightarrow> bool" where
  "isRegister input = (if strings_HasPrefix input ''#'' then True else False)"

definition getRegister :: "Compiler \<Rightarrow> string \<Rightarrow> error + byte" where
  "getRegister p input =
     (let num = strings_TrimPrefix input ''#'' in
      case strconv_Atoi num of
        None \<Rightarrow> panic p
      | Some i \<Rightarrow>
          if i \<ge> 0 \<and> i \<le> 15 then Inr (byte i)
          else os_Exit 1 (printf (Register_out_of_bounds input) p))"

definition curTokenIs :: "token_Type \<Rightarrow> Compiler \<Rightarrow> bool" where
  "curTokenIs t p = (Type (curToken p) = t)"

definition peekTokenIs :: "token_Type \<Rightarrow> Compiler \<Rightarrow> bool" where
  "peekTokenIs t p = (Type (peekToken p) = t)"

definition peekError :: "token_Type \<Rightarrow> Compiler \<Rightarrow> error + Compiler" where
  "peekError t p = os_Exit 1 (printf (Expected_next_token t (Type (curToken p))) p)"

definition expectPeek :: "token_Type \<Rightarrow> Compiler \<Rightarrow> error + (bool \<times> Compiler)" where
  "expectPeek t p =
     (if peekTokenIs t p then Inr (True, nextToken p)
      else andThen (peekError t p) (\<lambda>p. Inr (False, p)))"

definition Output :: "Compiler \<Rightarrow> byte list" where
  "Output p = bytecode p"

section \<open>The instruction encoders\<close>

text \<open>
  One definition per method of the source, in the source's order. A method that returns
  normally gives \<open>Inr\<close> of the new state; \<open>Inl\<close> is the end of the process inside it.
\<close>

definition byte_of_char :: "char \<Rightarrow> byte" where
  \<comment> \<open>\<open>byte(s[i])\<close>: a Go string is indexed by byte\<close>
  "byte_of_char c = of_char c"

definition nopOp :: "(opcode \<Rightarrow> int) \<Rightarrow> Compiler \<Rightarrow> error + Compiler" where
  "nopOp opc p = Inr (emit [byte (opc opcode_NOP_OP)] p)"

definition peekOp :: "(opcode \<Rightarrow> int) \<Rightarrow> Compiler \<Rightarrow> error + Compiler" where
  "peekOp opc p =
     andThen (expectPeek token_IDENT p) (\<lambda>(ok, p).
     if \<not> ok then Inr p else
     andThen (getRegister p (Literal (curToken p))) (\<lambda>res.
     andThen (expectPeek token_COMMA p) (\<lambda>(ok, p).
     if \<not> ok then Inr p else
     let p = nextToken p in
     if Type (curToken p) \<noteq> token_IDENT then Inr p else
     andThen (getRegister p (Literal (curToken p))) (\<lambda>addr.
     Inr (emit [byte (opc opcode_PEEK), res, addr] p)))))"

definition pokeOp :: "(opcode \<Rightarrow> int) \<Rightarrow> Compiler \<Rightarrow> error + Compiler" where
  "pokeOp opc p =
     andThen (expectPeek token_IDENT p) (\<lambda>(ok, p).
     if \<not> ok then Inr p else
     andThen (getRegister p (Literal (curToken p))) (\<lambda>val.
     andThen (expectPeek token_COMMA p) (\<lambda>(ok, p).
     if \<not> ok then Inr p else
     let p = nextToken p in
     if Type (curToken p) \<noteq> token_IDENT then Inr p else
     andThen (getRegister p (Literal (curToken p))) (\<lambda>addr.
     Inr (emit [byte (opc opcode_POKE), val, addr] p)))))"

definition pushOp :: "(opcode \<Rightarrow> int) \<Rightarrow> Compiler \<Rightarrow> error + Compiler" where
  "pushOp opc p =
     andThen (expectPeek token_IDENT p) (\<lambda>(ok, p).
     if \<not> ok then Inr p else
     andThen (getRegister p (Literal (curToken p))) (\<lambda>reg.
     Inr (emit [byte (opc opcode_STACK_PUSH), reg] p)))"

definition popOp :: "(opcode \<Rightarrow> int) \<Rightarrow> Compiler \<Rightarrow> error + Compiler" where
  "popOp opc p =
     andThen (expectPeek token_IDENT p) (\<lambda>(ok, p).
     if \<not> ok then Inr p else
     andThen (getRegister p (Literal (curToken p))) (\<lambda>reg.
     Inr (emit [byte (opc opcode_STACK_POP), reg] p)))"

definition exitOp :: "(opcode \<Rightarrow> int) \<Rightarrow> Compiler \<Rightarrow> error + Compiler" where
  "exitOp opc p = Inr (emit [byte (opc opcode_EXIT)] p)"

definition incOp :: "(opcode \<Rightarrow> int) \<Rightarrow> Compiler \<Rightarrow> error + Compiler" where
  "incOp opc p =
     andThen (expectPeek token_IDENT p) (\<lambda>(ok, p).
     if \<not> ok then Inr p else
     andThen (getRegister p (Literal (curToken p))) (\<lambda>reg.
     Inr (emit [byte (opc opcode_INC_OP), reg] p)))"

definition decOp :: "(opcode \<Rightarrow> int) \<Rightarrow> Compiler \<Rightarrow> error + Compiler" where
  "decOp opc p =
     andThen (expectPeek token_IDENT p) (\<lambda>(ok, p).
     if \<not> ok then Inr p else
     andThen (getRegister p (Literal (curToken p))) (\<lambda>reg.
     Inr (emit [byte (opc opcode_DEC_OP), reg] p)))"

definition randOp :: "(opcode \<Rightarrow> int) \<Rightarrow> Compiler \<Rightarrow> error + Compiler" where
  "randOp opc p =
     andThen (expectPeek token_IDENT p) (\<lambda>(ok, p).
     if \<not> ok then Inr p else
     andThen (getRegister p (Literal (curToken p))) (\<lambda>reg.
     Inr (emit [byte (opc opcode_INT_RANDOM), reg] p)))"

definition retOp :: "(opcode \<Rightarrow> int) \<Rightarrow> Compiler \<Rightarrow> error + Compiler" where
  "retOp opc p = Inr (emit [byte (opc opcode_STACK_RET)] p)"

definition isStrOp :: "(opcode \<Rightarrow> int) \<Rightarrow> Compiler \<Rightarrow> error + Compiler" where
  "isStrOp opc p =
     andThen (expectPeek token_IDENT p) (\<lambda>(ok, p).
     if \<not> ok then Inr p else
     andThen (getRegister p (Literal (curToken p))) (\<lambda>reg.
     Inr (emit [byte (opc opcode_IS_STRING), reg] p)))"

definition str2IntOp :: "(opcode \<Rightarrow> int) \<Rightarrow> Compiler \<Rightarrow> error + Compiler" where
  "str2IntOp opc p =
     andThen (expectPeek token_IDENT p) (\<lambda>(ok, p).
     if \<not> ok then Inr p else
     andThen (getRegister p (Literal (curToken p))) (\<lambda>reg.
     Inr (emit [byte (opc opcode_STRING_TOINT), reg] p)))"

definition int2StrOp :: "(opcode \<Rightarrow> int) \<Rightarrow> Compiler \<Rightarrow> error + Compiler" where
  "int2StrOp opc p =
     andThen (expectPeek token_IDENT p) (\<lambda>(ok, p).
     if \<not> ok then Inr p else
     andThen (getRegister p (Literal (curToken p))) (\<lambda>reg.
     Inr (emit [byte (opc opcode_INT_TOSTRING), reg] p)))"

definition systemOp :: "(opcode \<Rightarrow> int) \<Rightarrow> Compiler \<Rightarrow> error + Compiler" where
  "systemOp opc p =
     andThen (expectPeek token_IDENT p) (\<lambda>(ok, p).
     if \<not> ok then Inr p else
     andThen (getRegister p (Literal (curToken p))) (\<lambda>reg.
     Inr (emit [byte (opc opcode_STRING_SYSTEM), reg] p)))"

definition isIntOp :: "(opcode \<Rightarrow> int) \<Rightarrow> Compiler \<Rightarrow> error + Compiler" where
  "isIntOp opc p =
     andThen (expectPeek token_IDENT p) (\<lambda>(ok, p).
     if \<not> ok then Inr p else
     andThen (getRegister p (Literal (curToken p))) (\<lambda>reg.
     Inr (emit [byte (opc opcode_IS_INTEGER), reg] p)))"

definition callOp :: "(opcode \<Rightarrow> int) \<Rightarrow> Compiler \<Rightarrow> error + Compiler" where
  "callOp opc p =
     (let p = emit [byte (opc opcode_STACK_CALL)] p;
          p = nextToken p
      in if Type (curToken p) = token_INT then
           (let addr = ParseInt0 (Literal (curToken p));
                len1 = go_rem addr 256;
                len2 = go_quot (addr - len1) 256
            in Inr (emit [byte len1, byte len2] p))
         else if Type (curToken p) = token_IDENT then
           (let p = p\<lparr>fixups := AList.update (int (length (bytecode p)))
                                    (Literal (curToken p)) (fixups p)\<rparr>
            in Inr (emit [byte 0, byte 0] p))
         else Inr p)"

definition trapOp :: "(opcode \<Rightarrow> int) \<Rightarrow> Compiler \<Rightarrow> error + Compiler" where
  "trapOp opc p =
     (let p = nextToken p
      in if Type (curToken p) = token_INT then
           (let addr = ParseInt0 (Literal (curToken p));
                len1 = go_rem addr 256;
                len2 = go_quot (addr - len1) 256
            in Inr (emit [byte (opc opcode_TRAP_OP), byte len1, byte len2] p))
         else Inr (printf Fail p))"

definition jumpOp :: "int \<Rightarrow> Compiler \<Rightarrow> error + Compiler" where
  "jumpOp operator p =
     (let p = emit [byte operator] p;
          p = nextToken p
      in if Type (curToken p) = token_INT then
           (let addr = ParseInt0 (Literal (curToken p));
                len1 = go_rem addr 256;
                len2 = go_quot (addr - len1) 256
            in Inr (emit [byte len1, byte len2] p))
         else if Type (curToken p) = token_IDENT then
           (let p = p\<lparr>fixups := AList.update (int (length (bytecode p)))
                                    (Literal (curToken p)) (fixups p)\<rparr>
            in Inr (emit [byte 0, byte 0] p))
         else Inr p)"

definition memcpyOp :: "(opcode \<Rightarrow> int) \<Rightarrow> Compiler \<Rightarrow> error + Compiler" where
  "memcpyOp opc p =
     (let p = nextToken p in
      andThen (getRegister p (Literal (curToken p))) (\<lambda>one.
      andThen (expectPeek token_COMMA p) (\<lambda>(ok, p).
      if \<not> ok then Inr p else
      let p = nextToken p in
      andThen (getRegister p (Literal (curToken p))) (\<lambda>two.
      andThen (expectPeek token_COMMA p) (\<lambda>(ok, p).
      if \<not> ok then Inr p else
      let p = nextToken p in
      andThen (getRegister p (Literal (curToken p))) (\<lambda>three.
      Inr (emit [byte (opc opcode_MEMCPY), one, two, three] p)))))))"

definition mathOperation :: "int \<Rightarrow> Compiler \<Rightarrow> error + Compiler" where
  "mathOperation operation p =
     andThen (expectPeek token_IDENT p) (\<lambda>(ok, p).
     if \<not> ok then Inr p else
     andThen (getRegister p (Literal (curToken p))) (\<lambda>dst.
     andThen (expectPeek token_COMMA p) (\<lambda>(ok, p).
     if \<not> ok then Inr p else
     let p = nextToken p in
     if Type (curToken p) \<noteq> token_IDENT then Inr p else
     andThen (getRegister p (Literal (curToken p))) (\<lambda>src1.
     andThen (expectPeek token_COMMA p) (\<lambda>(ok, p).
     if \<not> ok then Inr p else
     let p = nextToken p in
     if Type (curToken p) \<noteq> token_IDENT then Inr p else
     andThen (getRegister p (Literal (curToken p))) (\<lambda>src2.
     Inr (emit [byte operation, dst, src1, src2] p)))))))"

definition storeOp :: "(opcode \<Rightarrow> int) \<Rightarrow> Compiler \<Rightarrow> error + Compiler" where
  "storeOp opc p =
     andThen (expectPeek token_IDENT p) (\<lambda>(ok, p).
     if \<not> ok then Inr p else
     andThen (getRegister p (Literal (curToken p))) (\<lambda>reg.
     andThen (expectPeek token_COMMA p) (\<lambda>(ok, p).
     if \<not> ok then Inr p else
     let p = nextToken p in
     if Type (curToken p) = token_STRING then
       (let p = emit [byte (opc opcode_STRING_STORE), reg] p;
            len = int (length (Literal (curToken p)));
            len1 = go_rem len 256;
            len2 = go_quot (len - len1) 256;
            p = emit [byte len1, byte len2] p
        in Inr (emit (map byte_of_char (Literal (curToken p))) p))
     else if Type (curToken p) = token_INT then
       (let p = emit [byte (opc opcode_INT_STORE), reg] p;
            i = ParseInt0 (Literal (curToken p));
            len1 = go_rem i 256;
            len2 = go_quot (i - len1) 256
        in Inr (emit [byte len1, byte len2] p))
     else if Type (curToken p) = token_IDENT then
       (if isRegister (Literal (curToken p)) then
          (let p = emit [byte (opc opcode_REG_STORE), reg] p in
           andThen (getRegister p (Literal (curToken p))) (\<lambda>src.
           Inr (emit [src] p)))
        else
          (let p = emit [byte (opc opcode_INT_STORE), reg] p;
               p = p\<lparr>fixups := AList.update (int (length (bytecode p)))
                                    (Literal (curToken p)) (fixups p)\<rparr>
           in Inr (emit [byte 0, byte 0] p)))
     else os_Exit 1 (printf (Invalid_thing_to_store (curToken p)) p))))"

definition cmpOp :: "(opcode \<Rightarrow> int) \<Rightarrow> Compiler \<Rightarrow> error + Compiler" where
  "cmpOp opc p =
     andThen (expectPeek token_IDENT p) (\<lambda>(ok, p).
     if \<not> ok then Inr p else
     andThen (getRegister p (Literal (curToken p))) (\<lambda>reg.
     andThen (expectPeek token_COMMA p) (\<lambda>(ok, p).
     if \<not> ok then Inr p else
     let p = nextToken p in
     if Type (curToken p) = token_STRING then
       (let p = emit [byte (opc opcode_CMP_STRING), reg] p;
            len = int (length (Literal (curToken p)));
            len1 = go_rem len 256;
            len2 = go_quot (len - len1) 256;
            p = emit [byte len1, byte len2] p
        in Inr (emit (map byte_of_char (Literal (curToken p))) p))
     else if Type (curToken p) = token_INT then
       (let p = emit [byte (opc opcode_CMP_IMMEDIATE), reg] p;
            i = ParseInt0 (Literal (curToken p));
            len1 = go_rem i 256;
            len2 = go_quot (i - len1) 256
        in Inr (emit [byte len1, byte len2] p))
     else if Type (curToken p) = token_IDENT then
       (if isRegister (Literal (curToken p)) then
          (let p = emit [byte (opc opcode_CMP_REG), reg] p in
           andThen (getRegister p (Literal (curToken p))) (\<lambda>src.
           Inr (emit [src] p)))
        else
          (let p = emit [byte (opc opcode_CMP_IMMEDIATE), reg] p;
               p = p\<lparr>fixups := AList.update (int (length (bytecode p)))
                                    (Literal (curToken p)) (fixups p)\<rparr>
           in Inr (emit [byte 0, byte 0] p)))
     else os_Exit 1 (printf (Invalid_thing_to_store (curToken p)) p))))"

definition concatOp :: "(opcode \<Rightarrow> int) \<Rightarrow> Compiler \<Rightarrow> error + Compiler" where
  "concatOp opc p =
     (let p = nextToken p in
      andThen (getRegister p (Literal (curToken p))) (\<lambda>dst.
      andThen (expectPeek token_COMMA p) (\<lambda>(ok, p).
      if \<not> ok then Inr p else
      let p = nextToken p in
      andThen (getRegister p (Literal (curToken p))) (\<lambda>a.
      andThen (expectPeek token_COMMA p) (\<lambda>(ok, p).
      if \<not> ok then Inr p else
      let p = nextToken p in
      andThen (getRegister p (Literal (curToken p))) (\<lambda>b.
      Inr (emit [byte (opc opcode_STRING_CONCAT), dst, a, b] p)))))))"

text \<open>
  The loop of \<open>dataOp\<close> over the comma-separated integers. Its measure is the number of
  tokens the lexer still holds, counting the lookahead token when it is not end-of-stream.
\<close>

definition tsize :: "Compiler \<Rightarrow> nat" where
  "tsize p = length (l p) + (if Type (peekToken p) \<noteq> token_EOF then 1 else 0)"

lemma tsize_nextToken_le: "tsize (nextToken p) \<le> tsize p"
  by (cases "l p") (simp_all add: tsize_def nextToken_def NextToken_def)

lemma tsize_nextToken_less:
  "Type (peekToken p) \<noteq> token_EOF \<Longrightarrow> tsize (nextToken p) < tsize p"
  by (cases "l p") (simp_all add: tsize_def nextToken_def NextToken_def)

lemma expectPeek_Inr:
  "expectPeek t p = Inr (ok, p') \<Longrightarrow> ok \<and> p' = nextToken p \<and> Type (peekToken p) = t"
  by (auto simp: expectPeek_def peekTokenIs_def peekError_def os_Exit_def andThen_def
      split: if_splits)

lemma tsize_emit: "tsize (emit bs p) = tsize p"
  by (simp add: tsize_def emit_def)

function dataOp_loop :: "Compiler \<Rightarrow> error + Compiler" where
  "dataOp_loop p =
     (if peekTokenIs token_COMMA p then
        (let p = nextToken p in
         case expectPeek token_INT p of
           Inl e \<Rightarrow> Inl e
         | Inr (ok, p) \<Rightarrow>
             if ok then
               (let db = Literal (curToken p);
                    i = ParseInt0 db
                in dataOp_loop (emit [byte i] p))
             else dataOp_loop p)
      else Inr p)"
  by pat_completeness auto
termination
proof (relation "measure tsize")
  show "wf (measure tsize)" by simp
next
  fix p p1 x ok p2 db i
  assume c: "peekTokenIs token_COMMA p" and p1: "p1 = nextToken p"
    and e: "expectPeek token_INT p1 = Inr x" and x: "(ok, p2) = x"
  from e x expectPeek_Inr [of token_INT p1 ok p2] have p2: "p2 = nextToken p1" by simp
  from c have "tsize p1 < tsize p"
    unfolding p1 by (intro tsize_nextToken_less) (simp add: peekTokenIs_def)
  moreover have "tsize p2 \<le> tsize p1" unfolding p2 by (rule tsize_nextToken_le)
  ultimately have lt: "tsize p2 < tsize p" by simp
  { assume "ok" "db = Literal (curToken p2)" "i = ParseInt0 db"
    from lt show "(emit [byte i] p2, p) \<in> measure tsize" by (simp add: tsize_emit) }
  { assume "\<not> ok"
    from lt show "(p2, p) \<in> measure tsize" by simp }
qed

declare dataOp_loop.simps [simp del]

definition dataOp :: "Compiler \<Rightarrow> error + Compiler" where
  "dataOp p =
     (let p = nextToken p
      in if Type (curToken p) = token_STRING then
           Inr (emit (map byte_of_char (Literal (curToken p))) p)
         else
           (let db = Literal (curToken p);
                i = ParseInt0 db;
                p = emit [byte i] p
            in dataOp_loop p))"

definition printInt :: "(opcode \<Rightarrow> int) \<Rightarrow> Compiler \<Rightarrow> error + Compiler" where
  "printInt opc p =
     andThen (expectPeek token_IDENT p) (\<lambda>(ok, p).
     if \<not> ok then Inr p else
     let p = emit [byte (opc opcode_INT_PRINT)] p in
     andThen (getRegister p (Literal (curToken p))) (\<lambda>reg.
     Inr (emit [reg] p)))"

definition printString :: "(opcode \<Rightarrow> int) \<Rightarrow> Compiler \<Rightarrow> error + Compiler" where
  "printString opc p =
     andThen (expectPeek token_IDENT p) (\<lambda>(ok, p).
     if \<not> ok then Inr p else
     let p = emit [byte (opc opcode_STRING_PRINT)] p in
     andThen (getRegister p (Literal (curToken p))) (\<lambda>reg.
     Inr (emit [reg] p)))"

section \<open>The statement dispatcher and the fixup pass\<close>

text \<open>The body of the \<open>switch\<close> in \<open>Compile\<close>: one statement, selected by the current token.\<close>

definition Compile_step :: "(opcode \<Rightarrow> int) \<Rightarrow> Compiler \<Rightarrow> error + Compiler" where
  "Compile_step opc p =
     (case Type (curToken p) of
        token_LABEL \<Rightarrow>
          (let label = strings_TrimPrefix (Literal (curToken p)) '':''
           in Inr (p\<lparr>labels := (labels p)(label \<mapsto> int (length (bytecode p)))\<rparr>))
      | token_EXIT \<Rightarrow> exitOp opc p
      | token_INC \<Rightarrow> incOp opc p
      | token_DEC \<Rightarrow> decOp opc p
      | token_RANDOM \<Rightarrow> randOp opc p
      | token_RET \<Rightarrow> retOp opc p
      | token_CALL \<Rightarrow> callOp opc p
      | token_IS_INTEGER \<Rightarrow> isIntOp opc p
      | token_IS_STRING \<Rightarrow> isStrOp opc p
      | token_STRING2INT \<Rightarrow> str2IntOp opc p
      | token_INT2STRING \<Rightarrow> int2StrOp opc p
      | token_SYSTEM \<Rightarrow> systemOp opc p
      | token_CMP \<Rightarrow> cmpOp opc p
      | token_CONCAT \<Rightarrow> concatOp opc p
      | token_DB \<Rightarrow> dataOp p
      | token_DATA \<Rightarrow> dataOp p
      | token_GOTO \<Rightarrow> jumpOp (opc opcode_JUMP_TO) p
      | token_TRAP \<Rightarrow> trapOp opc p
      | token_JMP \<Rightarrow> jumpOp (opc opcode_JUMP_TO) p
      | token_JMPZ \<Rightarrow> jumpOp (opc opcode_JUMP_Z) p
      | token_JMPNZ \<Rightarrow> jumpOp (opc opcode_JUMP_NZ) p
      | token_MEMCPY \<Rightarrow> memcpyOp opc p
      | token_NOP \<Rightarrow> nopOp opc p
      | token_PEEK \<Rightarrow> peekOp opc p
      | token_POKE \<Rightarrow> pokeOp opc p
      | token_PUSH \<Rightarrow> pushOp opc p
      | token_POP \<Rightarrow> popOp opc p
      | token_STORE \<Rightarrow> storeOp opc p
      | token_PRINT_INT \<Rightarrow> printInt opc p
      | token_PRINT_STR \<Rightarrow> printString opc p
      | token_ADD \<Rightarrow> mathOperation (opc opcode_ADD_OP) p
      | token_XOR \<Rightarrow> mathOperation (opc opcode_XOR_OP) p
      | token_SUB \<Rightarrow> mathOperation (opc opcode_SUB_OP) p
      | token_MUL \<Rightarrow> mathOperation (opc opcode_MUL_OP) p
      | token_DIV \<Rightarrow> mathOperation (opc opcode_DIV_OP) p
      | token_AND \<Rightarrow> mathOperation (opc opcode_AND_OP) p
      | token_OR \<Rightarrow> mathOperation (opc opcode_OR_OP) p
      | _ \<Rightarrow> Inr (printf (Unhandled_token (curToken p)) p))"

subsection \<open>Postconditions of runs that return\<close>

text \<open>
  \<open>post Q m\<close>: if the run \<open>m\<close> returns, its result satisfies \<open>Q\<close>. The rules below push a
  postcondition through the sequencing of an encoder.
\<close>

definition post :: "('a \<Rightarrow> bool) \<Rightarrow> error + 'a \<Rightarrow> bool" where
  "post Q m = (case m of Inl e \<Rightarrow> True | Inr x \<Rightarrow> Q x)"

lemma post_Inr: "post Q (Inr x) = Q x"
  by (simp add: post_def)

lemma post_Inl: "post Q (Inl e) = True"
  by (simp add: post_def)

lemma post_os_Exit: "post Q (os_Exit c p) = True"
  by (simp add: post_def os_Exit_def)

lemma post_panic: "post Q (panic p) = True"
  by (simp add: post_def panic_def)

lemma post_andThen: "post Q (andThen m f) = post (\<lambda>x. post Q (f x)) m"
  by (cases m) (simp_all add: post_def andThen_def)

lemma post_expectPeek:
  "post Q (expectPeek t p) = (Type (peekToken p) = t \<longrightarrow> Q (True, nextToken p))"
  by (simp add: expectPeek_def peekTokenIs_def peekError_def post_andThen post_os_Exit post_Inr)

lemma post_getRegister:
  "post Q (getRegister p s) = (\<forall>r. getRegister p s = Inr r \<longrightarrow> Q r)"
  by (cases "getRegister p s") (simp_all add: post_def)

lemma postD: "post Q m \<Longrightarrow> m = Inr x \<Longrightarrow> Q x"
  by (simp add: post_def)

lemma post_mono: "post Q m \<Longrightarrow> (\<And>x. Q x \<Longrightarrow> R x) \<Longrightarrow> post R m"
  by (cases m) (simp_all add: post_def)

lemmas post_simps = post_Inr post_Inl post_os_Exit post_panic post_andThen post_expectPeek
  post_getRegister

subsection \<open>The invariant of the scanning pass\<close>

text \<open>
  Every offset in the Fixup Table is the position of two bytes already in the buffer, and
  no two placeholders overlap. \<open>scan_inv b n\<close> bounds the tokens left by \<open>n\<close> and, when
  \<open>b\<close> holds, states the invariant of the Fixup Table.
\<close>

definition fixups_ok :: "Compiler \<Rightarrow> bool" where
  "fixups_ok p \<longleftrightarrow>
     distinct (map fst (fixups p)) \<and>
     (\<forall>a \<in> fst ` set (fixups p). 0 \<le> a \<and> a + 2 \<le> int (length (bytecode p))) \<and>
     (\<forall>a \<in> fst ` set (fixups p). \<forall>b \<in> fst ` set (fixups p).
        a \<noteq> b \<longrightarrow> a + 2 \<le> b \<or> b + 2 \<le> a)"

definition scan_inv :: "bool \<Rightarrow> nat \<Rightarrow> Compiler \<Rightarrow> bool" where
  "scan_inv b n p \<longleftrightarrow> tsize p \<le> n \<and> (b \<longrightarrow> fixups_ok p)"

lemma scan_inv_nextToken: "scan_inv b n p \<Longrightarrow> scan_inv b n (nextToken p)"
proof -
  have "fixups_ok (nextToken p) = fixups_ok p"
    by (simp add: fixups_ok_def nextToken_def split: prod.splits)
  then show "scan_inv b n p \<Longrightarrow> scan_inv b n (nextToken p)"
    using tsize_nextToken_le [of p] by (simp add: scan_inv_def)
qed

lemma scan_inv_emit: "scan_inv b n p \<Longrightarrow> scan_inv b n (emit bs p)"
  by (auto simp: scan_inv_def tsize_def fixups_ok_def emit_def)

lemma scan_inv_printf: "scan_inv b n p \<Longrightarrow> scan_inv b n (printf m p)"
  by (simp add: scan_inv_def tsize_def fixups_ok_def printf_def)

lemma scan_inv_labels: "scan_inv b n p \<Longrightarrow> scan_inv b n (p\<lparr>labels := f\<rparr>)"
  by (simp add: scan_inv_def tsize_def fixups_ok_def)

lemma fixups_ok_register:
  assumes "fixups_ok p"
  shows "fixups_ok (emit (b1 # b2 # bs)
           (p\<lparr>fixups := AList.update (int (length (bytecode p))) nm (fixups p)\<rparr>))"
proof -
  let ?k = "int (length (bytecode p))"
  from assms have old: "\<forall>a \<in> fst ` set (fixups p). 0 \<le> a \<and> a + 2 \<le> ?k"
    and d: "distinct (map fst (fixups p))"
    and gap: "\<forall>a \<in> fst ` set (fixups p). \<forall>b \<in> fst ` set (fixups p).
        a \<noteq> b \<longrightarrow> a + 2 \<le> b \<or> b + 2 \<le> a"
    by (simp_all add: fixups_ok_def)
  have keys: "fst ` set (AList.update ?k nm (fixups p)) = {?k} \<union> fst ` set (fixups p)"
    by (rule dom_update)
  have "distinct (map fst (AList.update ?k nm (fixups p)))"
    using d by (rule distinct_update)
  moreover have "\<forall>a \<in> {?k} \<union> fst ` set (fixups p). 0 \<le> a \<and> a + 2 \<le> ?k + 2 + int (length bs)"
    using old by auto
  moreover have "\<forall>a \<in> {?k} \<union> fst ` set (fixups p). \<forall>b \<in> {?k} \<union> fst ` set (fixups p).
        a \<noteq> b \<longrightarrow> a + 2 \<le> b \<or> b + 2 \<le> a"
    using old gap by auto
  ultimately show ?thesis
    by (simp add: fixups_ok_def emit_def keys)
qed

lemma scan_inv_register:
  "scan_inv b n p \<Longrightarrow>
   scan_inv b n (emit (b1 # b2 # bs)
     (p\<lparr>fixups := AList.update (int (length (bytecode p))) nm (fixups p)\<rparr>))"
  using fixups_ok_register [of p b1 b2 bs nm]
  by (simp add: scan_inv_def tsize_emit) (simp add: tsize_def)

lemmas scan_inv_simps = scan_inv_nextToken scan_inv_emit scan_inv_printf scan_inv_labels
  scan_inv_register

lemma dataOp_loop_inv: "scan_inv b n p \<Longrightarrow> post (scan_inv b n) (dataOp_loop p)"
proof (induction "tsize p" arbitrary: p rule: less_induct)
  case less
  show ?case
  proof (cases "peekTokenIs token_COMMA p")
    case False
    with less.prems show ?thesis
      by (simp add: dataOp_loop.simps [of p] post_simps)
  next
    case True
    let ?q = "nextToken (nextToken p)"
    let ?r = "emit [byte (ParseInt0 (Literal (curToken ?q)))] ?q"
    have "tsize (nextToken p) < tsize p"
      using True by (intro tsize_nextToken_less) (simp add: peekTokenIs_def)
    then have "tsize ?r < tsize p"
      using tsize_nextToken_le [of "nextToken p"] by (simp add: tsize_emit)
    moreover have "scan_inv b n ?r"
      using less.prems by (simp add: scan_inv_simps)
    ultimately have "post (scan_inv b n) (dataOp_loop ?r)"
      by (rule less.hyps)
    then show ?thesis
      using True
      by (cases "expectPeek token_INT (nextToken p)")
         (auto simp: dataOp_loop.simps [of p] Let_def post_simps dest!: expectPeek_Inr)
  qed
qed

lemma dataOp_inv: "scan_inv b n p \<Longrightarrow> post (scan_inv b n) (dataOp p)"
  by (simp add: dataOp_def Let_def post_simps dataOp_loop_inv scan_inv_simps)

lemma jumpOp_inv: "scan_inv b n p \<Longrightarrow> post (scan_inv b n) (jumpOp operator p)"
  by (simp add: jumpOp_def Let_def post_simps scan_inv_simps)

lemma mathOperation_inv: "scan_inv b n p \<Longrightarrow> post (scan_inv b n) (mathOperation operation p)"
  by (simp add: mathOperation_def Let_def post_simps scan_inv_simps)

lemma peekOp_inv: "scan_inv b n p \<Longrightarrow> post (scan_inv b n) (peekOp opc p)"
  by (simp add: peekOp_def Let_def post_simps scan_inv_simps)

lemma pokeOp_inv: "scan_inv b n p \<Longrightarrow> post (scan_inv b n) (pokeOp opc p)"
  by (simp add: pokeOp_def Let_def post_simps scan_inv_simps)

lemma pushOp_inv: "scan_inv b n p \<Longrightarrow> post (scan_inv b n) (pushOp opc p)"
  by (simp add: pushOp_def Let_def post_simps scan_inv_simps)

lemma popOp_inv: "scan_inv b n p \<Longrightarrow> post (scan_inv b n) (popOp opc p)"
  by (simp add: popOp_def Let_def post_simps scan_inv_simps)

lemma incOp_inv: "scan_inv b n p \<Longrightarrow> post (scan_inv b n) (incOp opc p)"
  by (simp add: incOp_def Let_def post_simps scan_inv_simps)

lemma decOp_inv: "scan_inv b n p \<Longrightarrow> post (scan_inv b n) (decOp opc p)"
  by (simp add: decOp_def Let_def post_simps scan_inv_simps)

lemma randOp_inv: "scan_inv b n p \<Longrightarrow> post (scan_inv b n) (randOp opc p)"
  by (simp add: randOp_def Let_def post_simps scan_inv_simps)

lemma isStrOp_inv: "scan_inv b n p \<Longrightarrow> post (scan_inv b n) (isStrOp opc p)"
  by (simp add: isStrOp_def Let_def post_simps scan_inv_simps)

lemma str2IntOp_inv: "scan_inv b n p \<Longrightarrow> post (scan_inv b n) (str2IntOp opc p)"
  by (simp add: str2IntOp_def Let_def post_simps scan_inv_simps)

lemma int2StrOp_inv: "scan_inv b n p \<Longrightarrow> post (scan_inv b n) (int2StrOp opc p)"
  by (simp add: int2StrOp_def Let_def post_simps scan_inv_simps)

lemma systemOp_inv: "scan_inv b n p \<Longrightarrow> post (scan_inv b n) (systemOp opc p)"
  by (simp add: systemOp_def Let_def post_simps scan_inv_simps)

lemma isIntOp_inv: "scan_inv b n p \<Longrightarrow> post (scan_inv b n) (isIntOp opc p)"
  by (simp add: isIntOp_def Let_def post_simps scan_inv_simps)

lemma callOp_inv: "scan_inv b n p \<Longrightarrow> post (scan_inv b n) (callOp opc p)"
  by (simp add: callOp_def Let_def post_simps scan_inv_simps)

lemma trapOp_inv: "scan_inv b n p \<Longrightarrow> post (scan_inv b n) (trapOp opc p)"
  by (simp add: trapOp_def Let_def post_simps scan_inv_simps)

lemma memcpyOp_inv: "scan_inv b n p \<Longrightarrow> post (scan_inv b n) (memcpyOp opc p)"
  by (simp add: memcpyOp_def Let_def post_simps scan_inv_simps)

lemma storeOp_inv: "scan_inv b n p \<Longrightarrow> post (scan_inv b n) (storeOp opc p)"
  by (simp add: storeOp_def Let_def post_simps scan_inv_simps)

lemma cmpOp_inv: "scan_inv b n p \<Longrightarrow> post (scan_inv b n) (cmpOp opc p)"
  by (simp add: cmpOp_def Let_def post_simps scan_inv_simps)

lemma concatOp_inv: "scan_inv b n p \<Longrightarrow> post (scan_inv b n) (concatOp opc p)"
  by (simp add: concatOp_def Let_def post_simps scan_inv_simps)

lemma printInt_inv: "scan_inv b n p \<Longrightarrow> post (scan_inv b n) (printInt opc p)"
  by (simp add: printInt_def Let_def post_simps scan_inv_simps)

lemma printString_inv: "scan_inv b n p \<Longrightarrow> post (scan_inv b n) (printString opc p)"
  by (simp add: printString_def Let_def post_simps scan_inv_simps)

lemma nopOp_inv: "scan_inv b n p \<Longrightarrow> post (scan_inv b n) (nopOp opc p)"
  by (simp add: nopOp_def Let_def post_simps scan_inv_simps)

lemma exitOp_inv: "scan_inv b n p \<Longrightarrow> post (scan_inv b n) (exitOp opc p)"
  by (simp add: exitOp_def Let_def post_simps scan_inv_simps)

lemma retOp_inv: "scan_inv b n p \<Longrightarrow> post (scan_inv b n) (retOp opc p)"
  by (simp add: retOp_def Let_def post_simps scan_inv_simps)

lemmas op_invs = dataOp_inv jumpOp_inv mathOperation_inv
  peekOp_inv pokeOp_inv pushOp_inv popOp_inv incOp_inv decOp_inv randOp_inv isStrOp_inv str2IntOp_inv int2StrOp_inv systemOp_inv isIntOp_inv callOp_inv trapOp_inv memcpyOp_inv storeOp_inv cmpOp_inv concatOp_inv printInt_inv printString_inv nopOp_inv exitOp_inv retOp_inv

lemma Compile_step_inv: "scan_inv b n p \<Longrightarrow> post (scan_inv b n) (Compile_step opc p)"
  by (cases "Type (curToken p)")
     (simp_all add: Compile_step_def Let_def op_invs post_Inr scan_inv_simps)

subsection \<open>Compile\<close>

text \<open>
  The scanning loop of \<open>Compile\<close>. It ends: a statement never gives tokens back, and the
  \<open>nextToken\<close> that closes an iteration consumes the current token, which is not
  end-of-stream.
\<close>

definition tokens_left :: "Compiler \<Rightarrow> nat" where
  "tokens_left p = tsize p + (if Type (curToken p) \<noteq> token_EOF then 1 else 0)"

lemma tokens_left_nextToken: "tokens_left (nextToken p) \<le> tsize p"
  by (cases "l p") (simp_all add: tokens_left_def tsize_def nextToken_def NextToken_def)

lemma Compile_step_tsize: "Compile_step opc p = Inr p' \<Longrightarrow> tsize p' \<le> tsize p"
proof -
  assume r: "Compile_step opc p = Inr p'"
  have "scan_inv False (tsize p) p" by (simp add: scan_inv_def)
  from postD [OF Compile_step_inv [OF this] r] show ?thesis by (simp add: scan_inv_def)
qed

function Compile_loop :: "(opcode \<Rightarrow> int) \<Rightarrow> Compiler \<Rightarrow> error + Compiler" where
  "Compile_loop opc p =
     (if Type (curToken p) \<noteq> token_EOF then
        (case Compile_step opc p of
           Inl e \<Rightarrow> Inl e
         | Inr p' \<Rightarrow> Compile_loop opc (nextToken p'))
      else Inr p)"
  by pat_completeness auto
termination
proof (relation "measure (\<lambda>(opc, p). tokens_left p)")
  show "wf (measure (\<lambda>(opc, p). tokens_left p))" by simp
next
  fix opc p p'
  assume c: "Type (curToken p) \<noteq> token_EOF" and r: "Compile_step opc p = Inr p'"
  have "tokens_left (nextToken p') \<le> tsize p'" by (rule tokens_left_nextToken)
  also have "\<dots> \<le> tsize p" using r by (rule Compile_step_tsize)
  also have "\<dots> < tokens_left p" using c by (simp add: tokens_left_def)
  finally show "((opc, nextToken p'), (opc, p)) \<in> measure (\<lambda>(opc, p). tokens_left p)"
    by simp
qed

declare Compile_loop.simps [simp del]

text \<open>
  The fixup pass. \<open>store_byte\<close> is the indexed assignment \<open>p.bytecode[i] = b\<close>, a run-time
  panic when the index is outside the slice. \<open>fixup\<close> is the body of the \<open>range\<close> loop for
  one entry, \<open>Compile_fixups\<close> the loop over a list of entries. Go leaves the order in which
  \<open>range\<close> visits a map open; \<open>Compile\<close> visits the entries in the order of their
  registration, and \<open>Compile_fixups_any_order\<close> below shows that another order gives the
  same bytecode.
\<close>

definition store_byte :: "int \<Rightarrow> byte \<Rightarrow> Compiler \<Rightarrow> error + Compiler" where
  "store_byte i b p =
     (if 0 \<le> i \<and> i < int (length (bytecode p))
      then Inr (p\<lparr>bytecode := (bytecode p)[nat i := b]\<rparr>)
      else panic p)"

definition fixup :: "int \<times> string \<Rightarrow> Compiler \<Rightarrow> error + Compiler" where
  "fixup e p =
     (case e of (addr, name) \<Rightarrow>
        let value = go_map_index (labels p) name;
            p = (if value = 0 then printf (Possible_use_of_undefined_label name) p else p);
            p1 = go_rem value 256;
            p2 = go_quot (value - p1) 256
        in andThen (store_byte addr (byte p1) p) (store_byte (addr + 1) (byte p2)))"

fun Compile_fixups :: "(int \<times> string) list \<Rightarrow> Compiler \<Rightarrow> error + Compiler" where
  "Compile_fixups [] p = Inr p"
| "Compile_fixups (e # es) p = andThen (fixup e p) (\<lambda>p. Compile_fixups es p)"

definition Compile :: "(opcode \<Rightarrow> int) \<Rightarrow> Compiler \<Rightarrow> error + Compiler" where
  "Compile opc p = andThen (Compile_loop opc p) (\<lambda>p. Compile_fixups (fixups p) p)"

section \<open>Properties of the fixup pass\<close>

text \<open>
  The two bytes every numeric field is split into, as each encoder and the fixup pass
  compute them; the buffer after one entry of the Fixup Table has been patched; and the
  warning the entry prints.
\<close>

definition lo_byte :: "int \<Rightarrow> byte" where
  "lo_byte v = byte (go_rem v 256)"

definition hi_byte :: "int \<Rightarrow> byte" where
  "hi_byte v = byte (go_quot (v - go_rem v 256) 256)"

definition patch :: "(string \<rightharpoonup> int) \<Rightarrow> byte list \<Rightarrow> int \<times> string \<Rightarrow> byte list" where
  "patch lb bc e =
     bc[nat (fst e) := lo_byte (go_map_index lb (snd e)),
        nat (fst e + 1) := hi_byte (go_map_index lb (snd e))]"

definition warning :: "(string \<rightharpoonup> int) \<Rightarrow> int \<times> string \<Rightarrow> message list" where
  "warning lb e =
     (if go_map_index lb (snd e) = 0 then [Possible_use_of_undefined_label (snd e)] else [])"

lemma fixup_Inr:
  assumes "0 \<le> fst e" "fst e + 2 \<le> int (length (bytecode p))"
  shows "fixup e p =
    Inr (p\<lparr>bytecode := patch (labels p) (bytecode p) e,
           stdout := stdout p @ warning (labels p) e\<rparr>)"
  using assms
  by (cases e)
     (simp add: fixup_def store_byte_def andThen_def Let_def printf_def patch_def warning_def
        lo_byte_def hi_byte_def)

lemma length_patch: "length (patch lb bc e) = length bc"
  by (simp add: patch_def)

lemma length_foldl_patch: "length (foldl (patch lb) bc es) = length bc"
  by (induction es arbitrary: bc) (simp_all add: length_patch)

lemma Compile_fixups_Inr:
  assumes "\<forall>e \<in> set es. 0 \<le> fst e \<and> fst e + 2 \<le> int (length (bytecode p))"
  shows "Compile_fixups es p =
    Inr (p\<lparr>bytecode := foldl (patch (labels p)) (bytecode p) es,
           stdout := stdout p @ concat (map (warning (labels p)) es)\<rparr>)"
  using assms
proof (induction es arbitrary: p)
  case Nil
  then show ?case by simp
next
  case (Cons e es)
  let ?p1 = "p\<lparr>bytecode := patch (labels p) (bytecode p) e,
                stdout := stdout p @ warning (labels p) e\<rparr>"
  from Cons.prems have 1: "fixup e p = Inr ?p1" by (simp add: fixup_Inr)
  from Cons.prems
  have "\<forall>e \<in> set es. 0 \<le> fst e \<and> fst e + 2 \<le> int (length (bytecode ?p1))"
    by (simp add: length_patch)
  from Cons.IH [OF this] 1 show ?case by (simp add: andThen_def)
qed

lemma nth_patch_other:
  assumes "0 \<le> fst e" "int i \<noteq> fst e" "int i \<noteq> fst e + 1"
  shows "patch lb bc e ! i = bc ! i"
proof -
  from assms have "i \<noteq> nat (fst e)" "i \<noteq> nat (fst e + 1)" by linarith+
  then show ?thesis by (simp add: patch_def)
qed

lemma nth_foldl_patch_other:
  assumes "\<forall>e \<in> set es. 0 \<le> fst e \<and> int i \<noteq> fst e \<and> int i \<noteq> fst e + 1"
  shows "foldl (patch lb) bc es ! i = bc ! i"
  using assms by (induction es arbitrary: bc) (simp_all add: nth_patch_other)

lemma nth_patch_same:
  assumes "0 \<le> fst e" "fst e + 2 \<le> int (length bc)"
  shows "patch lb bc e ! nat (fst e) = lo_byte (go_map_index lb (snd e))"
    and "patch lb bc e ! nat (fst e + 1) = hi_byte (go_map_index lb (snd e))"
proof -
  from assms have "nat (fst e) \<noteq> nat (fst e + 1)" "nat (fst e) < length bc"
    "nat (fst e + 1) < length bc" by linarith+
  then show "patch lb bc e ! nat (fst e) = lo_byte (go_map_index lb (snd e))"
    and "patch lb bc e ! nat (fst e + 1) = hi_byte (go_map_index lb (snd e))"
    by (simp_all add: patch_def)
qed

lemma nth_foldl_patch_same:
  assumes "distinct (map fst es)"
    and "\<forall>a \<in> fst ` set es. 0 \<le> a \<and> a + 2 \<le> int (length bc)"
    and "\<forall>a \<in> fst ` set es. \<forall>b \<in> fst ` set es. a \<noteq> b \<longrightarrow> a + 2 \<le> b \<or> b + 2 \<le> a"
    and "e \<in> set es"
  shows "foldl (patch lb) bc es ! nat (fst e) = lo_byte (go_map_index lb (snd e)) \<and>
         foldl (patch lb) bc es ! nat (fst e + 1) = hi_byte (go_map_index lb (snd e))"
  using assms
proof (induction es arbitrary: bc)
  case Nil
  then show ?case by simp
next
  case (Cons x es)
  show ?case
  proof (cases "e = x")
    case True
    from Cons.prems(1) have nk: "fst x \<notin> fst ` set es" by simp
    from Cons.prems(2) have rng: "0 \<le> fst x" "fst x + 2 \<le> int (length bc)" by simp_all
    have other: "\<forall>y \<in> set es. 0 \<le> fst y \<and> (fst x + 2 \<le> fst y \<or> fst y + 2 \<le> fst x)"
    proof
      fix y assume y: "y \<in> set es"
      then have "fst y \<noteq> fst x" using nk by (auto simp: image_iff)
      moreover have "fst y \<in> fst ` set (x # es)" "fst x \<in> fst ` set (x # es)" using y by simp_all
      ultimately show "0 \<le> fst y \<and> (fst x + 2 \<le> fst y \<or> fst y + 2 \<le> fst x)"
        using Cons.prems(2,3) by (metis)
    qed
    have a: "\<forall>y \<in> set es. 0 \<le> fst y \<and> int (nat (fst x)) \<noteq> fst y \<and> int (nat (fst x)) \<noteq> fst y + 1"
      using other rng by fastforce
    have b: "\<forall>y \<in> set es. 0 \<le> fst y \<and> int (nat (fst x + 1)) \<noteq> fst y \<and> int (nat (fst x + 1)) \<noteq> fst y + 1"
      using other rng by fastforce
    show ?thesis
      using nth_foldl_patch_other [OF a, of lb "patch lb bc x"]
        nth_foldl_patch_other [OF b, of lb "patch lb bc x"]
        nth_patch_same [OF rng, of lb]
      by (simp add: True)
  next
    case False
    with Cons.prems(4) have "e \<in> set es" by simp
    moreover from Cons.prems(1) have "distinct (map fst es)" by simp
    moreover from Cons.prems(2)
    have "\<forall>a \<in> fst ` set es. 0 \<le> a \<and> a + 2 \<le> int (length (patch lb bc x))"
      by (simp add: length_patch)
    moreover from Cons.prems(3)
    have "\<forall>a \<in> fst ` set es. \<forall>b \<in> fst ` set es. a \<noteq> b \<longrightarrow> a + 2 \<le> b \<or> b + 2 \<le> a"
      by simp
    ultimately show ?thesis
      using Cons.IH [of "patch lb bc x"] by simp
  qed
qed

lemma Compile_loop_inv: "scan_inv b n p \<Longrightarrow> post (scan_inv b n) (Compile_loop opc p)"
proof (induction opc p rule: Compile_loop.induct)
  case (1 opc p)
  show ?case
  proof (cases "Type (curToken p) \<noteq> token_EOF")
    case False
    with "1.prems" show ?thesis by (simp add: Compile_loop.simps [of opc p] post_Inr)
  next
    case True
    show ?thesis
    proof (cases "Compile_step opc p")
      case (Inl e)
      with True show ?thesis by (simp add: Compile_loop.simps [of opc p] post_Inl)
    next
      case (Inr p')
      from postD [OF Compile_step_inv [OF "1.prems"] Inr] have "scan_inv b n p'" .
      then have "scan_inv b n (nextToken p')" by (rule scan_inv_nextToken)
      from "1.IH" [OF True Inr this] Inr True show ?thesis
        by (simp add: Compile_loop.simps [of opc p])
    qed
  qed
qed

lemma New_inv: "scan_inv True (length lx) (New lx)"
proof -
  have "scan_inv True (length lx) \<lparr>l = lx,
        curToken = \<lparr>Type = token_EOF, Literal = []\<rparr>,
        peekToken = \<lparr>Type = token_EOF, Literal = []\<rparr>,
        bytecode = [], labels = Map.empty, fixups = [], stdout = []\<rparr>"
    by (simp add: scan_inv_def tsize_def fixups_ok_def)
  then show ?thesis unfolding New_def by (intro scan_inv_nextToken)
qed

lemma Compile_loop_fixups_ok:
  "Compile_loop opc (New lx) = Inr p \<Longrightarrow> fixups_ok p"
  using postD [OF Compile_loop_inv [OF New_inv]] by (simp add: scan_inv_def)

section \<open>Running the compiler on a token stream\<close>

lemma go_rem_nonneg: "0 \<le> a \<Longrightarrow> go_rem a 256 = a mod 256"
  by (simp add: go_rem_def go_quot_def sgn_if minus_mult_div_eq_mod)

lemma go_quot_nonneg: "0 \<le> a \<Longrightarrow> go_quot a 256 = a div 256"
  by (simp add: go_quot_def sgn_if)

lemmas run_defs = Compile_def Compile_loop.simps Compile_step_def New_def nextToken_def
  NextToken_def andThen_def emit_def printf_def os_Exit_def panic_def expectPeek_def
  peekTokenIs_def peekError_def Let_def fixup_def store_byte_def Output_def
  strings_TrimPrefix_def strings_HasPrefix_def go_map_index_def byte_def
  go_rem_nonneg go_quot_nonneg

lemma Compile_eq_fixups:
  assumes "Compile_loop opc (New toks) = Inr p1"
  shows "Compile opc (New toks) =
    Inr (p1\<lparr>bytecode := foldl (patch (labels p1)) (bytecode p1) (fixups p1),
            stdout := stdout p1 @ concat (map (warning (labels p1)) (fixups p1))\<rparr>)"
proof -
  from Compile_loop_fixups_ok [OF assms]
  have "\<forall>e \<in> set (fixups p1). 0 \<le> fst e \<and> fst e + 2 \<le> int (length (bytecode p1))"
    by (simp add: fixups_ok_def)
  from Compile_fixups_Inr [OF this] assms show ?thesis
    by (simp add: Compile_def andThen_def)
qed

lemma Compile_patched:
  assumes "Compile_loop opc (New toks) = Inr p1" and "e \<in> set (fixups p1)"
  shows "foldl (patch (labels p1)) (bytecode p1) (fixups p1) ! nat (fst e)
           = lo_byte (go_map_index (labels p1) (snd e)) \<and>
         foldl (patch (labels p1)) (bytecode p1) (fixups p1) ! nat (fst e + 1)
           = hi_byte (go_map_index (labels p1) (snd e))"
  using Compile_loop_fixups_ok [OF assms(1)] assms(2)
  by (intro nth_foldl_patch_same) (simp_all add: fixups_ok_def)

lemma lo_byte_0: "lo_byte 0 = 0"
  by (simp add: lo_byte_def byte_def go_rem_def go_quot_def)

lemma hi_byte_0: "hi_byte 0 = 0"
  by (simp add: hi_byte_def byte_def go_rem_def go_quot_def)

subsection \<open>The order of the fixup pass\<close>

text \<open>
  In whatever order the entries of the Fixup Table are visited, the pass returns, leaves
  the same bytecode as \<open>Compile\<close> does, and prints the warnings of the entries in the
  order visited.
\<close>

lemma foldl_patch_any_order:
  assumes d: "distinct (map fst fx)"
    and rng: "\<forall>a \<in> fst ` set fx. 0 \<le> a \<and> a + 2 \<le> int (length bc)"
    and gap: "\<forall>a \<in> fst ` set fx. \<forall>b \<in> fst ` set fx. a \<noteq> b \<longrightarrow> a + 2 \<le> b \<or> b + 2 \<le> a"
    and es: "distinct es" "set es = set fx"
  shows "foldl (patch lb) bc es = foldl (patch lb) bc fx"
proof (rule nth_equalityI)
  show "length (foldl (patch lb) bc es) = length (foldl (patch lb) bc fx)"
    by (simp add: length_foldl_patch)
next
  fix i assume "i < length (foldl (patch lb) bc es)"
  from d have "inj_on fst (set fx)" by (simp add: distinct_map)
  with es have d': "distinct (map fst es)" by (simp add: distinct_map)
  from rng es have rng': "\<forall>a \<in> fst ` set es. 0 \<le> a \<and> a + 2 \<le> int (length bc)" by simp
  from gap es
  have gap': "\<forall>a \<in> fst ` set es. \<forall>b \<in> fst ` set es. a \<noteq> b \<longrightarrow> a + 2 \<le> b \<or> b + 2 \<le> a"
    by simp
  show "foldl (patch lb) bc es ! i = foldl (patch lb) bc fx ! i"
  proof (cases "\<exists>e \<in> set fx. int i = fst e \<or> int i = fst e + 1")
    case True
    then obtain e where e: "e \<in> set fx" and i: "int i = fst e \<or> int i = fst e + 1" by blast
    from e es have e': "e \<in> set es" by simp
    from i have "i = nat (fst e) \<or> i = nat (fst e + 1)" by linarith
    then show ?thesis
      using nth_foldl_patch_same [OF d rng gap e, of lb]
        nth_foldl_patch_same [OF d' rng' gap' e', of lb]
      by auto
  next
    case False
    with rng have o: "\<forall>e \<in> set fx. 0 \<le> fst e \<and> int i \<noteq> fst e \<and> int i \<noteq> fst e + 1" by auto
    with es have o': "\<forall>e \<in> set es. 0 \<le> fst e \<and> int i \<noteq> fst e \<and> int i \<noteq> fst e + 1" by simp
    from nth_foldl_patch_other [OF o] nth_foldl_patch_other [OF o'] show ?thesis by simp
  qed
qed

lemma Compile_fixups_any_order:
  assumes "Compile_loop opc (New toks) = Inr p1" and "distinct es" and "set es = set (fixups p1)"
  shows "\<exists>p2 p2'. Compile opc (New toks) = Inr p2 \<and> Compile_fixups es p1 = Inr p2' \<and>
           bytecode p2' = bytecode p2 \<and>
           stdout p2' = stdout p1 @ concat (map (warning (labels p1)) es)"
proof -
  from Compile_loop_fixups_ok [OF assms(1)] have ok: "fixups_ok p1" .
  then have "\<forall>e \<in> set es. 0 \<le> fst e \<and> fst e + 2 \<le> int (length (bytecode p1))"
    using assms(3) by (simp add: fixups_ok_def)
  from Compile_fixups_Inr [OF this] foldl_patch_any_order [OF _ _ _ assms(2,3)] ok
  show ?thesis
    by (simp add: Compile_eq_fixups [OF assms(1)] fixups_ok_def)
qed

text \<open>The source text \<open>#r\<close> of the register \<open>r\<close>, for \<open>r\<close> from 0 to 15.\<close>

definition register_text :: "nat \<Rightarrow> string" where
  "register_text r =
     [''#0'', ''#1'', ''#2'', ''#3'', ''#4'', ''#5'', ''#6'', ''#7'', ''#8'', ''#9'',
      ''#10'', ''#11'', ''#12'', ''#13'', ''#14'', ''#15''] ! r"

lemmas strconv_defs = strconv_Atoi_def ParseInt0_def strconv_ParseInt_def strconv_ParseUint_def
  digit_of_def maxUint64_def lower_def

lemma getRegister_register_text:
  assumes "r \<le> 15"
  shows "getRegister p (register_text r) = Inr (of_nat r)"
proof -
  from assms have "r \<in> {0, 1, 2, 3, 4, 5, 6, 7, 8, 9, 10, 11, 12, 13, 14, 15}"
    by (simp only: insert_iff empty_iff) arith
  then show ?thesis
    by (elim insertE emptyE)
       (simp_all add: register_text_def getRegister_def strings_TrimPrefix_def
          strings_HasPrefix_def strconv_defs byte_def)
qed

lemma ParseInt0_42: "ParseInt0 ''42'' = 42"
  by (simp add: strconv_defs)

section \<open>The numeric fields of the encoders\<close>

lemma getRegister_state: "getRegister p s = Inr r \<Longrightarrow> getRegister q s = Inr r"
  by (auto simp: getRegister_def Let_def panic_def os_Exit_def split: option.splits if_splits)

lemma nextToken_sel:
  "curToken (nextToken p) = peekToken p"
  "peekToken (nextToken p) = fst (NextToken (l p))"
  "l (nextToken p) = snd (NextToken (l p))"
  "bytecode (nextToken p) = bytecode p"
  "labels (nextToken p) = labels p"
  "fixups (nextToken p) = fixups p"
  "stdout (nextToken p) = stdout p"
  by (simp_all add: nextToken_def split: prod.splits)

lemma NextToken_simps:
  "NextToken [] = (\<lparr>Type = token_EOF, Literal = []\<rparr>, [])"
  "NextToken (t # ts) = (t, ts)"
  by (simp_all add: NextToken_def)

lemma emit_sel:
  "curToken (emit bs p) = curToken p"
  "peekToken (emit bs p) = peekToken p"
  "l (emit bs p) = l p"
  "bytecode (emit bs p) = bytecode p @ bs"
  "labels (emit bs p) = labels p"
  "fixups (emit bs p) = fixups p"
  "stdout (emit bs p) = stdout p"
  by (simp_all add: emit_def)

lemma printf_sel:
  "curToken (printf m p) = curToken p"
  "peekToken (printf m p) = peekToken p"
  "l (printf m p) = l p"
  "bytecode (printf m p) = bytecode p"
  "labels (printf m p) = labels p"
  "fixups (printf m p) = fixups p"
  "stdout (printf m p) = stdout p @ [m]"
  by (simp_all add: printf_def)

lemmas step_defs = expectPeek_def peekTokenIs_def andThen_def Let_def lo_byte_def hi_byte_def
  nextToken_sel NextToken_simps emit_sel printf_sel

lemma jumpOp_INT:
  assumes "Type (peekToken p) = token_INT"
  shows "\<exists>p'. jumpOp operator p = Inr p' \<and>
           bytecode p' = bytecode p @ [byte operator, lo_byte (ParseInt0 (Literal (peekToken p))),
                                       hi_byte (ParseInt0 (Literal (peekToken p)))]"
  using assms by (simp add: jumpOp_def step_defs)

lemma callOp_INT:
  assumes "Type (peekToken p) = token_INT"
  shows "\<exists>p'. callOp opc p = Inr p' \<and>
           bytecode p' = bytecode p @ [byte (opc opcode_STACK_CALL),
                                       lo_byte (ParseInt0 (Literal (peekToken p))),
                                       hi_byte (ParseInt0 (Literal (peekToken p)))]"
  using assms by (simp add: callOp_def step_defs)

lemma trapOp_INT:
  assumes "Type (peekToken p) = token_INT"
  shows "\<exists>p'. trapOp opc p = Inr p' \<and>
           bytecode p' = bytecode p @ [byte (opc opcode_TRAP_OP),
                                       lo_byte (ParseInt0 (Literal (peekToken p))),
                                       hi_byte (ParseInt0 (Literal (peekToken p)))]"
  using assms by (simp add: trapOp_def step_defs)

lemma storeOp_INT:
  assumes "Type (peekToken p) = token_IDENT"
    and "getRegister p (Literal (peekToken p)) = Inr reg"
    and "l p = \<lparr>Type = token_COMMA, Literal = c\<rparr> # \<lparr>Type = token_INT, Literal = lit\<rparr> # rest"
  shows "\<exists>p'. storeOp opc p = Inr p' \<and>
           bytecode p' = bytecode p @ [byte (opc opcode_INT_STORE), reg,
                                       lo_byte (ParseInt0 lit), hi_byte (ParseInt0 lit)]"
proof -
  have r: "getRegister q (Literal (peekToken p)) = Inr reg" for q
    using assms(2) by (rule getRegister_state)
  show ?thesis using assms(1,3) by (simp add: storeOp_def step_defs r)
qed

lemma storeOp_STRING:
  assumes "Type (peekToken p) = token_IDENT"
    and "getRegister p (Literal (peekToken p)) = Inr reg"
    and "l p = \<lparr>Type = token_COMMA, Literal = c\<rparr> # \<lparr>Type = token_STRING, Literal = lit\<rparr> # rest"
  shows "\<exists>p'. storeOp opc p = Inr p' \<and>
           bytecode p' = bytecode p @ [byte (opc opcode_STRING_STORE), reg,
                                       lo_byte (int (length lit)), hi_byte (int (length lit))]
                                    @ map byte_of_char lit"
proof -
  have r: "getRegister q (Literal (peekToken p)) = Inr reg" for q
    using assms(2) by (rule getRegister_state)
  show ?thesis using assms(1,3) by (simp add: storeOp_def step_defs r)
qed

lemma cmpOp_INT:
  assumes "Type (peekToken p) = token_IDENT"
    and "getRegister p (Literal (peekToken p)) = Inr reg"
    and "l p = \<lparr>Type = token_COMMA, Literal = c\<rparr> # \<lparr>Type = token_INT, Literal = lit\<rparr> # rest"
  shows "\<exists>p'. cmpOp opc p = Inr p' \<and>
           bytecode p' = bytecode p @ [byte (opc opcode_CMP_IMMEDIATE), reg,
                                       lo_byte (ParseInt0 lit), hi_byte (ParseInt0 lit)]"
proof -
  have r: "getRegister q (Literal (peekToken p)) = Inr reg" for q
    using assms(2) by (rule getRegister_state)
  show ?thesis using assms(1,3) by (simp add: cmpOp_def step_defs r)
qed

lemma cmpOp_STRING:
  assumes "Type (peekToken p) = token_IDENT"
    and "getRegister p (Literal (peekToken p)) = Inr reg"
    and "l p = \<lparr>Type = token_COMMA, Literal = c\<rparr> # \<lparr>Type = token_STRING, Literal = lit\<rparr> # rest"
  shows "\<exists>p'. cmpOp opc p = Inr p' \<and>
           bytecode p' = bytecode p @ [byte (opc opcode_CMP_STRING), reg,
                                       lo_byte (int (length lit)), hi_byte (int (length lit))]
                                    @ map byte_of_char lit"
proof -
  have r: "getRegister q (Literal (peekToken p)) = Inr reg" for q
    using assms(2) by (rule getRegister_state)
  show ?thesis using assms(1,3) by (simp add: cmpOp_def step_defs r)
qed

lemma fixup_bytes:
  assumes "0 \<le> a" and "a + 2 \<le> int (length (bytecode p))"
  shows "\<exists>p'. fixup (a, n) p = Inr p' \<and>
           bytecode p' = (bytecode p)[nat a := lo_byte (go_map_index (labels p) n),
                                      nat (a + 1) := hi_byte (go_map_index (labels p) n)]"
  using assms fixup_Inr [of "(a, n)" p] by (simp add: patch_def)

lemma go_quot_exact: "go_quot (v - go_rem v 256) 256 = go_quot v 256"
proof (cases "0 \<le> v")
  case True
  then have "0 \<le> v - v mod 256" by (simp add: zmod_le_nonneg_dividend)
  then have "go_quot (v - v mod 256) 256 = (v - v mod 256) div 256" by (rule go_quot_nonneg)
  also have "\<dots> = v div 256" by (simp add: minus_mod_eq_mult_div)
  finally show ?thesis using True by (simp add: go_rem_nonneg go_quot_nonneg)
next
  case False
  then have n: "v < 0" by simp
  have q: "go_quot v 256 = - ((- v) div 256)" using n by (simp add: go_quot_def sgn_if)
  have r: "go_rem v 256 = - ((- v) mod 256)"
    using n by (simp add: go_rem_def q minus_mult_div_eq_mod [symmetric])
  have "v - go_rem v 256 = - (256 * ((- v) div 256))"
    unfolding r using mult_div_mod_eq [of 256 "- v"] by linarith
  then show ?thesis
    using n by (simp add: q) (simp add: go_quot_def sgn_if)
qed

lemma uint_byte: "uint (byte x) = x mod 256"
  by (simp add: byte_def uint_word_of_int)

lemma uint_lo_byte: "uint (lo_byte v) = v mod 256"
proof -
  have "go_rem v 256 mod 256 = v mod 256"
    by (simp add: go_rem_def) (metis diff_conv_add_uminus minus_mult_right mod_mult_self2)
  then show ?thesis by (simp add: lo_byte_def uint_byte)
qed

lemma little_endian_in_range:
  assumes "0 \<le> v" "v \<le> 65535"
  shows "uint (lo_byte v) + 256 * uint (hi_byte v) = v"
proof -
  from assms have "v div 256 < 256" by simp
  moreover from assms have "0 \<le> v div 256" by simp
  ultimately have "(v div 256) mod 256 = v div 256" by simp
  with assms show ?thesis
    by (simp add: uint_lo_byte hi_byte_def uint_byte go_quot_exact go_quot_nonneg)
qed

section \<open>Label references through the scan\<close>

text \<open>
  \<open>scan opc k\<close> is the first \<open>k\<close> iterations of the scanning loop (fewer when the
  end of the stream comes first). \<open>references_label p a name\<close>: the statement at \<open>p\<close> has
  the label operand \<open>name\<close>, and \<open>a\<close> is the offset of its two operand bytes: the byte
  after the opcode for \<open>jmp\<close>, \<open>jmpz\<close>, \<open>jmpnz\<close>, \<open>goto\<close> and \<open>call\<close>, the byte after the
  opcode and the register for \<open>store\<close> and \<open>cmp\<close>. \<open>defines_label name p\<close>: the statement
  at \<open>p\<close> is the label \<open>name\<close>. \<open>keep_inv E lb\<close> is the invariant of one encoder: the
  Fixup Table is well formed and holds the entries \<open>E\<close>, and the Symbol Table is \<open>lb\<close>.
\<close>

definition keep_inv :: "(int \<times> string) set \<Rightarrow> (string \<rightharpoonup> int) \<Rightarrow> Compiler \<Rightarrow> bool" where
  "keep_inv E lb p \<longleftrightarrow> fixups_ok p \<and> E \<subseteq> set (fixups p) \<and> labels p = lb"

definition defines_label :: "string \<Rightarrow> Compiler \<Rightarrow> bool" where
  "defines_label name p \<longleftrightarrow>
     Type (curToken p) = token_LABEL \<and> strings_TrimPrefix (Literal (curToken p)) '':'' = name"

definition references_label :: "Compiler \<Rightarrow> int \<Rightarrow> string \<Rightarrow> bool" where
  "references_label p a name \<longleftrightarrow>
     (Type (curToken p) \<in> {token_JMP, token_JMPZ, token_JMPNZ, token_GOTO, token_CALL} \<and>
      peekToken p = \<lparr>Type = token_IDENT, Literal = name\<rparr> \<and>
      a = int (length (bytecode p)) + 1) \<or>
     (Type (curToken p) \<in> {token_STORE, token_CMP} \<and>
      Type (peekToken p) = token_IDENT \<and>
      (case getRegister p (Literal (peekToken p)) of Inl e \<Rightarrow> False | Inr reg \<Rightarrow> True) \<and>
      (case l p of
         c # t # rest \<Rightarrow> Type c = token_COMMA \<and> t = \<lparr>Type = token_IDENT, Literal = name\<rparr>
       | _ \<Rightarrow> False) \<and>
      \<not> isRegister name \<and>
      a = int (length (bytecode p)) + 2)"

fun scan :: "(opcode \<Rightarrow> int) \<Rightarrow> nat \<Rightarrow> Compiler \<Rightarrow> error + Compiler" where
  "scan opc 0 p = Inr p"
| "scan opc (Suc k) p =
     (if Type (curToken p) \<noteq> token_EOF then
        (case Compile_step opc p of
           Inl e \<Rightarrow> Inl e
         | Inr p' \<Rightarrow> scan opc k (nextToken p'))
      else Inr p)"

lemma keep_inv_nextToken: "keep_inv E lb p \<Longrightarrow> keep_inv E lb (nextToken p)"
  by (simp add: keep_inv_def fixups_ok_def nextToken_def split: prod.splits)

lemma keep_inv_emit: "keep_inv E lb p \<Longrightarrow> keep_inv E lb (emit bs p)"
  by (auto simp: keep_inv_def fixups_ok_def emit_def)

lemma keep_inv_printf: "keep_inv E lb p \<Longrightarrow> keep_inv E lb (printf m p)"
  by (simp add: keep_inv_def fixups_ok_def printf_def)

lemma set_update_fresh:
  "k \<notin> fst ` set al \<Longrightarrow> set (AList.update k v al) = insert (k, v) (set al)"
  by (induction al) auto

lemma update_mem: "a = k \<Longrightarrow> (a, v) \<in> set (AList.update k v al)"
  by (induction al) auto

lemma keep_inv_register:
  assumes "keep_inv E lb p"
  shows "keep_inv E lb (emit (b1 # b2 # bs)
           (p\<lparr>fixups := AList.update (int (length (bytecode p))) nm (fixups p)\<rparr>))"
proof -
  from assms have ok: "fixups_ok p" and E: "E \<subseteq> set (fixups p)" and lb: "labels p = lb"
    by (simp_all add: keep_inv_def)
  from ok have "int (length (bytecode p)) \<notin> fst ` set (fixups p)"
    by (auto simp: fixups_ok_def)
  then have "set (AList.update (int (length (bytecode p))) nm (fixups p))
      = insert (int (length (bytecode p)), nm) (set (fixups p))"
    by (rule set_update_fresh)
  with E lb fixups_ok_register [OF ok, of b1 b2 bs nm] show ?thesis
    by (auto simp: keep_inv_def emit_def)
qed

lemmas keep_inv_simps = keep_inv_nextToken keep_inv_emit keep_inv_printf keep_inv_register

lemma dataOp_loop_keep: "keep_inv E lb p \<Longrightarrow> post (keep_inv E lb) (dataOp_loop p)"
proof (induction "tsize p" arbitrary: p rule: less_induct)
  case less
  show ?case
  proof (cases "peekTokenIs token_COMMA p")
    case False
    with less.prems show ?thesis
      by (simp add: dataOp_loop.simps [of p] post_simps)
  next
    case True
    let ?q = "nextToken (nextToken p)"
    let ?r = "emit [byte (ParseInt0 (Literal (curToken ?q)))] ?q"
    have "tsize (nextToken p) < tsize p"
      using True by (intro tsize_nextToken_less) (simp add: peekTokenIs_def)
    then have "tsize ?r < tsize p"
      using tsize_nextToken_le [of "nextToken p"] by (simp add: tsize_emit)
    moreover have "keep_inv E lb ?r"
      using less.prems by (simp add: keep_inv_simps)
    ultimately have "post (keep_inv E lb) (dataOp_loop ?r)"
      by (rule less.hyps)
    then show ?thesis
      using True
      by (cases "expectPeek token_INT (nextToken p)")
         (auto simp: dataOp_loop.simps [of p] Let_def post_simps dest!: expectPeek_Inr)
  qed
qed

lemma dataOp_keep: "keep_inv E lb p \<Longrightarrow> post (keep_inv E lb) (dataOp p)"
  by (simp add: dataOp_def Let_def post_simps dataOp_loop_keep keep_inv_simps)

lemma jumpOp_keep: "keep_inv E lb p \<Longrightarrow> post (keep_inv E lb) (jumpOp operator p)"
  by (simp add: jumpOp_def Let_def post_simps keep_inv_simps)

lemma mathOperation_keep: "keep_inv E lb p \<Longrightarrow> post (keep_inv E lb) (mathOperation operation p)"
  by (simp add: mathOperation_def Let_def post_simps keep_inv_simps)

lemma peekOp_keep: "keep_inv E lb p \<Longrightarrow> post (keep_inv E lb) (peekOp opc p)"
  by (simp add: peekOp_def Let_def post_simps keep_inv_simps)

lemma pokeOp_keep: "keep_inv E lb p \<Longrightarrow> post (keep_inv E lb) (pokeOp opc p)"
  by (simp add: pokeOp_def Let_def post_simps keep_inv_simps)

lemma pushOp_keep: "keep_inv E lb p \<Longrightarrow> post (keep_inv E lb) (pushOp opc p)"
  by (simp add: pushOp_def Let_def post_simps keep_inv_simps)

lemma popOp_keep: "keep_inv E lb p \<Longrightarrow> post (keep_inv E lb) (popOp opc p)"
  by (simp add: popOp_def Let_def post_simps keep_inv_simps)

lemma incOp_keep: "keep_inv E lb p \<Longrightarrow> post (keep_inv E lb) (incOp opc p)"
  by (simp add: incOp_def Let_def post_simps keep_inv_simps)

lemma decOp_keep: "keep_inv E lb p \<Longrightarrow> post (keep_inv E lb) (decOp opc p)"
  by (simp add: decOp_def Let_def post_simps keep_inv_simps)

lemma randOp_keep: "keep_inv E lb p \<Longrightarrow> post (keep_inv E lb) (randOp opc p)"
  by (simp add: randOp_def Let_def post_simps keep_inv_simps)

lemma isStrOp_keep: "keep_inv E lb p \<Longrightarrow> post (keep_inv E lb) (isStrOp opc p)"
  by (simp add: isStrOp_def Let_def post_simps keep_inv_simps)

lemma str2IntOp_keep: "keep_inv E lb p \<Longrightarrow> post (keep_inv E lb) (str2IntOp opc p)"
  by (simp add: str2IntOp_def Let_def post_simps keep_inv_simps)

lemma int2StrOp_keep: "keep_inv E lb p \<Longrightarrow> post (keep_inv E lb) (int2StrOp opc p)"
  by (simp add: int2StrOp_def Let_def post_simps keep_inv_simps)

lemma systemOp_keep: "keep_inv E lb p \<Longrightarrow> post (keep_inv E lb) (systemOp opc p)"
  by (simp add: systemOp_def Let_def post_simps keep_inv_simps)

lemma isIntOp_keep: "keep_inv E lb p \<Longrightarrow> post (keep_inv E lb) (isIntOp opc p)"
  by (simp add: isIntOp_def Let_def post_simps keep_inv_simps)

lemma callOp_keep: "keep_inv E lb p \<Longrightarrow> post (keep_inv E lb) (callOp opc p)"
  by (simp add: callOp_def Let_def post_simps keep_inv_simps)

lemma trapOp_keep: "keep_inv E lb p \<Longrightarrow> post (keep_inv E lb) (trapOp opc p)"
  by (simp add: trapOp_def Let_def post_simps keep_inv_simps)

lemma memcpyOp_keep: "keep_inv E lb p \<Longrightarrow> post (keep_inv E lb) (memcpyOp opc p)"
  by (simp add: memcpyOp_def Let_def post_simps keep_inv_simps)

lemma storeOp_keep: "keep_inv E lb p \<Longrightarrow> post (keep_inv E lb) (storeOp opc p)"
  by (simp add: storeOp_def Let_def post_simps keep_inv_simps)

lemma cmpOp_keep: "keep_inv E lb p \<Longrightarrow> post (keep_inv E lb) (cmpOp opc p)"
  by (simp add: cmpOp_def Let_def post_simps keep_inv_simps)

lemma concatOp_keep: "keep_inv E lb p \<Longrightarrow> post (keep_inv E lb) (concatOp opc p)"
  by (simp add: concatOp_def Let_def post_simps keep_inv_simps)

lemma printInt_keep: "keep_inv E lb p \<Longrightarrow> post (keep_inv E lb) (printInt opc p)"
  by (simp add: printInt_def Let_def post_simps keep_inv_simps)

lemma printString_keep: "keep_inv E lb p \<Longrightarrow> post (keep_inv E lb) (printString opc p)"
  by (simp add: printString_def Let_def post_simps keep_inv_simps)

lemma nopOp_keep: "keep_inv E lb p \<Longrightarrow> post (keep_inv E lb) (nopOp opc p)"
  by (simp add: nopOp_def Let_def post_simps keep_inv_simps)

lemma exitOp_keep: "keep_inv E lb p \<Longrightarrow> post (keep_inv E lb) (exitOp opc p)"
  by (simp add: exitOp_def Let_def post_simps keep_inv_simps)

lemma retOp_keep: "keep_inv E lb p \<Longrightarrow> post (keep_inv E lb) (retOp opc p)"
  by (simp add: retOp_def Let_def post_simps keep_inv_simps)

lemmas op_keeps = dataOp_keep jumpOp_keep mathOperation_keep
  peekOp_keep pokeOp_keep pushOp_keep popOp_keep incOp_keep decOp_keep randOp_keep isStrOp_keep str2IntOp_keep int2StrOp_keep systemOp_keep isIntOp_keep callOp_keep trapOp_keep memcpyOp_keep storeOp_keep cmpOp_keep concatOp_keep printInt_keep printString_keep nopOp_keep exitOp_keep retOp_keep

lemma Compile_step_keep:
  "keep_inv E lb p \<Longrightarrow> Type (curToken p) \<noteq> token_LABEL \<Longrightarrow>
   post (keep_inv E lb) (Compile_step opc p)"
  by (cases "Type (curToken p)")
     (simp_all add: Compile_step_def Let_def op_keeps post_Inr keep_inv_simps)

lemma Compile_step_label:
  "Type (curToken p) = token_LABEL \<Longrightarrow>
   Compile_step opc p =
     Inr (p\<lparr>labels := (labels p)(strings_TrimPrefix (Literal (curToken p)) '':''
                             \<mapsto> int (length (bytecode p)))\<rparr>)"
  by (simp add: Compile_step_def)

text \<open>One statement: the Fixup Table stays well formed and keeps its entries.\<close>

lemma Compile_step_entries:
  assumes "fixups_ok p" and "E \<subseteq> set (fixups p)" and "Compile_step opc p = Inr p'"
  shows "fixups_ok p' \<and> E \<subseteq> set (fixups p')"
proof (cases "Type (curToken p) = token_LABEL")
  case True
  have "fixups_ok (p\<lparr>labels := f\<rparr>) = fixups_ok p" for f by (simp add: fixups_ok_def)
  with True assms show ?thesis by (auto simp: Compile_step_label)
next
  case False
  from assms(1,2) have "keep_inv E (labels p) p" by (simp add: keep_inv_def)
  from postD [OF Compile_step_keep [OF this False] assms(3)] show ?thesis
    by (simp add: keep_inv_def)
qed

text \<open>One statement: the Symbol Table changes only at a label statement, under its name.\<close>

lemma Compile_step_labels:
  assumes "fixups_ok p" and "Compile_step opc p = Inr p'"
  shows "labels p' name =
    (if defines_label name p then Some (int (length (bytecode p))) else labels p name)"
proof (cases "Type (curToken p) = token_LABEL")
  case True
  with assms show ?thesis by (auto simp: Compile_step_label defines_label_def)
next
  case False
  from assms(1) have "keep_inv {} (labels p) p" by (simp add: keep_inv_def)
  from postD [OF Compile_step_keep [OF this False] assms(2)] False show ?thesis
    by (simp add: keep_inv_def defines_label_def)
qed

text \<open>A statement with a label operand registers the fixup for it.\<close>

lemma Compile_step_registers:
  assumes "references_label p a name" and "Compile_step opc p = Inr p'"
  shows "(a, name) \<in> set (fixups p')"
proof -
  from assms(1) consider
      (jump) "Type (curToken p) \<in> {token_JMP, token_JMPZ, token_JMPNZ, token_GOTO, token_CALL}"
        "peekToken p = \<lparr>Type = token_IDENT, Literal = name\<rparr>"
        "a = int (length (bytecode p)) + 1"
    | (store) "Type (curToken p) \<in> {token_STORE, token_CMP}"
        "Type (peekToken p) = token_IDENT"
        "case getRegister p (Literal (peekToken p)) of Inl e \<Rightarrow> False | Inr reg \<Rightarrow> True"
        "case l p of
           c # t # rest \<Rightarrow> Type c = token_COMMA \<and> t = \<lparr>Type = token_IDENT, Literal = name\<rparr>
         | _ \<Rightarrow> False"
        "\<not> isRegister name" "a = int (length (bytecode p)) + 2"
    by (auto simp: references_label_def)
  then show ?thesis
  proof cases
    case jump
    with assms(2) show ?thesis
      by (auto simp: Compile_step_def jumpOp_def callOp_def Let_def nextToken_sel emit_sel
          intro!: update_mem)
  next
    case store
    from store(3) obtain reg where "getRegister p (Literal (peekToken p)) = Inr reg"
      by (cases "getRegister p (Literal (peekToken p))") auto
    then have r: "getRegister q (Literal (peekToken p)) = Inr reg" for q
      by (rule getRegister_state)
    from store(4) obtain c rest where lp: "l p = c # \<lparr>Type = token_IDENT, Literal = name\<rparr> # rest"
      and c: "Type c = token_COMMA"
      by (auto split: list.splits)
    from store(1,2,5,6) assms(2) lp c show ?thesis
      by (auto simp: Compile_step_def storeOp_def cmpOp_def step_defs r intro!: update_mem)
  qed
qed

text \<open>The first \<open>k\<close> iterations of the scanning loop.\<close>

lemma scan_Compile_loop: "scan opc k p = Inr q \<Longrightarrow> Compile_loop opc p = Compile_loop opc q"
proof (induction k arbitrary: p)
  case 0
  then show ?case by simp
next
  case (Suc k)
  show ?case
  proof (cases "Type (curToken p) \<noteq> token_EOF")
    case False
    with Suc.prems show ?thesis by simp
  next
    case True
    with Suc.prems obtain p' where s: "Compile_step opc p = Inr p'"
      and r: "scan opc k (nextToken p') = Inr q"
      by (auto split: sum.splits)
    from Suc.IH [OF r] s True show ?thesis by (simp add: Compile_loop.simps [of opc p])
  qed
qed

lemma fixups_ok_nextToken: "fixups_ok (nextToken p) = fixups_ok p"
  by (simp add: fixups_ok_def nextToken_sel)

lemma scan_entries:
  "scan opc k p = Inr q \<Longrightarrow> fixups_ok p \<Longrightarrow> E \<subseteq> set (fixups p) \<Longrightarrow>
   fixups_ok q \<and> E \<subseteq> set (fixups q)"
proof (induction k arbitrary: p)
  case 0
  then show ?case by simp
next
  case (Suc k)
  show ?case
  proof (cases "Type (curToken p) \<noteq> token_EOF")
    case False
    with Suc.prems show ?thesis by simp
  next
    case True
    with Suc.prems obtain p' where s: "Compile_step opc p = Inr p'"
      and r: "scan opc k (nextToken p') = Inr q"
      by (auto split: sum.splits)
    from Compile_step_entries [OF Suc.prems(2,3) s]
    have "fixups_ok (nextToken p')" "E \<subseteq> set (fixups (nextToken p'))"
      by (simp_all add: fixups_ok_nextToken nextToken_sel)
    with Suc.IH [OF r] show ?thesis by simp
  qed
qed

lemma scan_labels:
  "scan opc k p = Inr q \<Longrightarrow> fixups_ok p \<Longrightarrow>
   (\<forall>j<k. \<forall>q'. scan opc j p = Inr q' \<longrightarrow> \<not> defines_label name q') \<Longrightarrow>
   labels q name = labels p name"
proof (induction k arbitrary: p)
  case 0
  then show ?case by simp
next
  case (Suc k)
  show ?case
  proof (cases "Type (curToken p) \<noteq> token_EOF")
    case False
    with Suc.prems show ?thesis by simp
  next
    case True
    with Suc.prems obtain p' where s: "Compile_step opc p = Inr p'"
      and r: "scan opc k (nextToken p') = Inr q"
      by (auto split: sum.splits)
    from Suc.prems(3) [rule_format, of 0 p] have nd: "\<not> defines_label name p" by simp
    have ok: "fixups_ok (nextToken p')"
      using Compile_step_entries [OF Suc.prems(2) _ s, of "{}"] by (simp add: fixups_ok_nextToken)
    have "\<forall>j<k. \<forall>q'. scan opc j (nextToken p') = Inr q' \<longrightarrow> \<not> defines_label name q'"
    proof (intro allI impI)
      fix j q' assume j: "j < k" and q': "scan opc j (nextToken p') = Inr q'"
      from q' s True have "scan opc (Suc j) p = Inr q'" by simp
      with Suc.prems(3) [rule_format, of "Suc j" q'] j show "\<not> defines_label name q'" by simp
    qed
    from Suc.IH [OF r ok this] Compile_step_labels [OF Suc.prems(2) s, of name] nd
    show ?thesis by (simp add: nextToken_sel)
  qed
qed

lemma uint_lo_hi_wrap:
  assumes "0 \<le> v"
  shows "uint (lo_byte v) + 256 * uint (hi_byte v) = v mod 65536"
proof -
  have "v mod (256 * 256) = 256 * (v div 256 mod 256) + v mod 256"
    by (rule zmod_zmult2_eq) simp
  with assms show ?thesis
    by (simp add: uint_lo_byte hi_byte_def uint_byte go_quot_exact go_quot_nonneg)
qed

lemma New_fixups_ok: "fixups_ok (New toks)"
  using New_inv [of toks] by (simp add: scan_inv_def)

lemma scan_Suc_Inr:
  assumes "scan opc (Suc k) p = Inr q" and "Type (curToken p) \<noteq> token_EOF"
  obtains p' where "Compile_step opc p = Inr p'" and "scan opc k (nextToken p') = Inr q"
  using assms by (auto split: sum.splits)

text \<open>
  A reference to a label that is defined later in the scan, and not again after that, is
  patched with the length the buffer had at the label.
\<close>

lemma forward_reference_resolves:
  assumes s0: "scan opc i (New toks) = Inr q0"
    and ref: "references_label q0 a nm"
    and s1: "scan opc (Suc j) q0 = Inr q2"
    and def: "defines_label nm q2"
    and s2: "scan opc (Suc m) q2 = Inr p1"
    and eof: "Type (curToken p1) = token_EOF"
    and last: "\<forall>k<m. \<forall>q. scan opc (Suc k) q2 = Inr q \<longrightarrow> \<not> defines_label nm q"
  shows "\<exists>p2. Compile opc (New toks) = Inr p2 \<and>
           Output p2 ! nat a = lo_byte (int (length (bytecode q2))) \<and>
           Output p2 ! nat (a + 1) = hi_byte (int (length (bytecode q2))) \<and>
           uint (Output p2 ! nat a) + 256 * uint (Output p2 ! nat (a + 1))
             = int (length (bytecode q2)) mod 65536"
proof -
  from scan_entries [OF s0 New_fixups_ok, of "{}"] have ok0: "fixups_ok q0" by simp
  from ref have c0: "Type (curToken q0) \<noteq> token_EOF"
    by (auto simp: references_label_def)
  from s1 c0 obtain q0' where st0: "Compile_step opc q0 = Inr q0'"
    and r0: "scan opc j (nextToken q0') = Inr q2"
    by (rule scan_Suc_Inr)
  from Compile_step_registers [OF ref st0] have reg: "{(a, nm)} \<subseteq> set (fixups (nextToken q0'))"
    by (simp add: nextToken_sel)
  from Compile_step_entries [OF ok0 _ st0, of "{}"] have "fixups_ok (nextToken q0')"
    by (simp add: fixups_ok_nextToken)
  from scan_entries [OF r0 this reg] have ok2: "fixups_ok q2" and e2: "{(a, nm)} \<subseteq> set (fixups q2)"
    by simp_all
  from def have c2: "Type (curToken q2) \<noteq> token_EOF" by (simp add: defines_label_def)
  from s2 c2 obtain q2' where st2: "Compile_step opc q2 = Inr q2'"
    and r2: "scan opc m (nextToken q2') = Inr p1"
    by (rule scan_Suc_Inr)
  from Compile_step_labels [OF ok2 st2, of nm] def
  have lb2: "labels (nextToken q2') nm = Some (int (length (bytecode q2)))"
    by (simp add: nextToken_sel)
  from Compile_step_entries [OF ok2 e2 st2]
  have ok2': "fixups_ok (nextToken q2')" and e2': "{(a, nm)} \<subseteq> set (fixups (nextToken q2'))"
    by (simp_all add: fixups_ok_nextToken nextToken_sel)
  from scan_entries [OF r2 ok2' e2'] have e1: "(a, nm) \<in> set (fixups p1)" by simp
  have "\<forall>k<m. \<forall>q. scan opc k (nextToken q2') = Inr q \<longrightarrow> \<not> defines_label nm q"
    using last st2 c2 by simp
  from scan_labels [OF r2 ok2' this] lb2
  have lb1: "labels p1 nm = Some (int (length (bytecode q2)))" by simp
  have "Compile_loop opc (New toks) = Compile_loop opc p1"
    using scan_Compile_loop [OF s0] scan_Compile_loop [OF s1] scan_Compile_loop [OF s2] by simp
  with eof have loop: "Compile_loop opc (New toks) = Inr p1"
    by (simp add: Compile_loop.simps [of opc p1])
  from Compile_patched [OF loop e1] lb1
  have "foldl (patch (labels p1)) (bytecode p1) (fixups p1) ! nat a
          = lo_byte (int (length (bytecode q2)))"
    "foldl (patch (labels p1)) (bytecode p1) (fixups p1) ! nat (a + 1)
          = hi_byte (int (length (bytecode q2)))"
    by (simp_all add: go_map_index_def)
  then show ?thesis
    by (simp add: Compile_eq_fixups [OF loop] Output_def uint_lo_hi_wrap)
qed

lemma nextToken_printf: "nextToken (printf m p) = printf m (nextToken p)"
  by (simp add: nextToken_def printf_def split: prod.splits)

lemma nextToken_emit: "nextToken (emit bs p) = emit bs (nextToken p)"
  by (simp add: nextToken_def emit_def split: prod.splits)

section \<open>The claims\<close>

text \<open>
  C10. The fixup pass only overwrites in place. For every token stream whose scanning pass
  returns, the whole of \<open>Compile\<close> returns; the buffer after the fixup pass is as long as
  before it; every offset of the Fixup Table and the offset after it lie inside the
  buffer; and every byte that is at neither position of any entry is the same before and
  after the pass.
\<close>

theorem fixup_pass_overwrites_in_place:
  assumes "Compile_loop opc (New toks) = Inr p1"
  shows "\<exists>p2. Compile opc (New toks) = Inr p2 \<and>
           length (bytecode p2) = length (bytecode p1) \<and>
           (\<forall>(a, n) \<in> set (fixups p1). 0 \<le> a \<and> a + 1 < int (length (bytecode p1))) \<and>
           (\<forall>i < length (bytecode p1).
              (\<forall>(a, n) \<in> set (fixups p1). int i \<noteq> a \<and> int i \<noteq> a + 1) \<longrightarrow>
              bytecode p2 ! i = bytecode p1 ! i)"
proof -
  from Compile_loop_fixups_ok [OF assms]
  have rng: "\<forall>e \<in> set (fixups p1). 0 \<le> fst e \<and> fst e + 2 \<le> int (length (bytecode p1))"
    by (simp add: fixups_ok_def)
  have frame: "foldl (patch (labels p1)) (bytecode p1) (fixups p1) ! i = bytecode p1 ! i"
    if "\<forall>(a, n) \<in> set (fixups p1). int i \<noteq> a \<and> int i \<noteq> a + 1" for i
  proof (rule nth_foldl_patch_other)
    show "\<forall>e\<in>set (fixups p1). 0 \<le> fst e \<and> int i \<noteq> fst e \<and> int i \<noteq> fst e + 1"
      using rng that by (auto simp: case_prod_beta)
  qed
  from rng have "\<forall>(a, n) \<in> set (fixups p1). 0 \<le> a \<and> a + 1 < int (length (bytecode p1))"
    by (auto simp: case_prod_beta)
  with frame show ?thesis
    by (simp add: Compile_eq_fixups [OF assms] length_foldl_patch)
qed

theorem fixup_pass_overwrites_in_place_witness:
  "\<forall>opc. \<exists>p1 p2.
     Compile_loop opc (New [\<lparr>Type = token_JMP, Literal = ''jmp''\<rparr>,
                            \<lparr>Type = token_IDENT, Literal = ''target''\<rparr>,
                            \<lparr>Type = token_LABEL, Literal = '':target''\<rparr>,
                            \<lparr>Type = token_EXIT, Literal = ''exit''\<rparr>]) = Inr p1 \<and>
     Compile opc (New [\<lparr>Type = token_JMP, Literal = ''jmp''\<rparr>,
                       \<lparr>Type = token_IDENT, Literal = ''target''\<rparr>,
                       \<lparr>Type = token_LABEL, Literal = '':target''\<rparr>,
                       \<lparr>Type = token_EXIT, Literal = ''exit''\<rparr>]) = Inr p2 \<and>
     fixups p1 = [(1, ''target'')] \<and>
     bytecode p1 = [byte (opc opcode_JUMP_TO), 0, 0, byte (opc opcode_EXIT)] \<and>
     length (bytecode p2) = 4 \<and> bytecode p2 ! 0 = byte (opc opcode_JUMP_TO) \<and>
     bytecode p2 ! 3 = byte (opc opcode_EXIT)"
proof
  fix opc
  let ?prog = "[\<lparr>Type = token_JMP, Literal = ''jmp''\<rparr>,
                \<lparr>Type = token_IDENT, Literal = ''target''\<rparr>,
                \<lparr>Type = token_LABEL, Literal = '':target''\<rparr>,
                \<lparr>Type = token_EXIT, Literal = ''exit''\<rparr>]"
  have "\<exists>p1. Compile_loop opc (New ?prog) = Inr p1 \<and> fixups p1 = [(1, ''target'')] \<and>
          bytecode p1 = [byte (opc opcode_JUMP_TO), 0, 0, byte (opc opcode_EXIT)]"
    by (simp add: run_defs jumpOp_def exitOp_def)
  then obtain p1 where p1: "Compile_loop opc (New ?prog) = Inr p1"
    and fx: "fixups p1 = [(1, ''target'')]"
    and bc: "bytecode p1 = [byte (opc opcode_JUMP_TO), 0, 0, byte (opc opcode_EXIT)]"
    by blast
  from fixup_pass_overwrites_in_place [OF p1] obtain p2
    where p2: "Compile opc (New ?prog) = Inr p2"
      and len: "length (bytecode p2) = length (bytecode p1)"
      and frame: "\<forall>i < length (bytecode p1).
              (\<forall>(a, n) \<in> set (fixups p1). int i \<noteq> a \<and> int i \<noteq> a + 1) \<longrightarrow>
              bytecode p2 ! i = bytecode p1 ! i"
    by blast
  from frame [rule_format, of 0] frame [rule_format, of 3]
  have "bytecode p2 ! 0 = byte (opc opcode_JUMP_TO)" "bytecode p2 ! 3 = byte (opc opcode_EXIT)"
    by (simp_all add: fx bc)
  with p1 p2 fx bc len
  show "\<exists>p1 p2. Compile_loop opc (New ?prog) = Inr p1 \<and> Compile opc (New ?prog) = Inr p2 \<and>
     fixups p1 = [(1, ''target'')] \<and>
     bytecode p1 = [byte (opc opcode_JUMP_TO), 0, 0, byte (opc opcode_EXIT)] \<and>
     length (bytecode p2) = 4 \<and> bytecode p2 ! 0 = byte (opc opcode_JUMP_TO) \<and>
     bytecode p2 ! 3 = byte (opc opcode_EXIT)"
    by simp
qed

text \<open>
  C8. A fixup whose label has no entry in the Symbol Table only produces a warning. For
  every token stream whose scanning pass returns with a fixup \<open>(a, n)\<close> registered and no
  entry for \<open>n\<close> in the Symbol Table, \<open>Compile\<close> returns (it does not end the process),
  the warning for \<open>n\<close> has been printed, the two placeholder bytes at \<open>a\<close> and \<open>a + 1\<close>
  hold the zero value of the failed lookup, and the output has the length the buffer had
  after the scan.
\<close>

theorem unresolved_label_only_warns:
  assumes "Compile_loop opc (New toks) = Inr p1"
    and "(a, n) \<in> set (fixups p1)"
    and "labels p1 n = None"
  shows "\<exists>p2. Compile opc (New toks) = Inr p2 \<and>
           Possible_use_of_undefined_label n \<in> set (stdout p2) \<and>
           Output p2 ! nat a = 0 \<and> Output p2 ! nat (a + 1) = 0 \<and>
           length (Output p2) = length (bytecode p1)"
proof -
  from assms(3) have z: "go_map_index (labels p1) n = 0" by (simp add: go_map_index_def)
  then have "Possible_use_of_undefined_label n \<in> set (warning (labels p1) (a, n))"
    by (simp add: warning_def)
  with assms(2)
  have "Possible_use_of_undefined_label n \<in> set (concat (map (warning (labels p1)) (fixups p1)))"
    by force
  moreover from Compile_patched [OF assms(1,2)] z
  have "foldl (patch (labels p1)) (bytecode p1) (fixups p1) ! nat a = 0"
    "foldl (patch (labels p1)) (bytecode p1) (fixups p1) ! nat (a + 1) = 0"
    by (simp_all add: lo_byte_0 hi_byte_0)
  ultimately show ?thesis
    by (simp add: Compile_eq_fixups [OF assms(1)] Output_def length_foldl_patch)
qed

theorem unresolved_label_only_warns_witness:
  "\<forall>opc. \<exists>p1 p2.
     Compile_loop opc (New [\<lparr>Type = token_JMP, Literal = ''jmp''\<rparr>,
                            \<lparr>Type = token_IDENT, Literal = ''nowhere''\<rparr>,
                            \<lparr>Type = token_EXIT, Literal = ''exit''\<rparr>]) = Inr p1 \<and>
     (1, ''nowhere'') \<in> set (fixups p1) \<and> labels p1 ''nowhere'' = None \<and>
     Compile opc (New [\<lparr>Type = token_JMP, Literal = ''jmp''\<rparr>,
                       \<lparr>Type = token_IDENT, Literal = ''nowhere''\<rparr>,
                       \<lparr>Type = token_EXIT, Literal = ''exit''\<rparr>]) = Inr p2 \<and>
     Possible_use_of_undefined_label ''nowhere'' \<in> set (stdout p2) \<and>
     Output p2 ! 1 = 0 \<and> Output p2 ! 2 = 0 \<and> length (Output p2) = 4"
proof
  fix opc
  let ?prog = "[\<lparr>Type = token_JMP, Literal = ''jmp''\<rparr>,
                \<lparr>Type = token_IDENT, Literal = ''nowhere''\<rparr>,
                \<lparr>Type = token_EXIT, Literal = ''exit''\<rparr>]"
  have "\<exists>p1. Compile_loop opc (New ?prog) = Inr p1 \<and> (1, ''nowhere'') \<in> set (fixups p1) \<and>
          labels p1 ''nowhere'' = None \<and> length (bytecode p1) = 4"
    by (simp add: run_defs jumpOp_def exitOp_def)
  then obtain p1 where p1: "Compile_loop opc (New ?prog) = Inr p1"
    and fx: "(1, ''nowhere'') \<in> set (fixups p1)"
    and lb: "labels p1 ''nowhere'' = None" and len: "length (bytecode p1) = 4"
    by blast
  from unresolved_label_only_warns [OF p1 fx lb] len fx lb p1
  show "\<exists>p1 p2. Compile_loop opc (New ?prog) = Inr p1 \<and>
     (1, ''nowhere'') \<in> set (fixups p1) \<and> labels p1 ''nowhere'' = None \<and>
     Compile opc (New ?prog) = Inr p2 \<and>
     Possible_use_of_undefined_label ''nowhere'' \<in> set (stdout p2) \<and>
     Output p2 ! 1 = 0 \<and> Output p2 ! 2 = 0 \<and> length (Output p2) = 4"
    by (auto simp: numeral_2_eq_2)
qed

text \<open>
  What the fixup pass prints. Let \<open>es\<close> be the entries of the Fixup Table in the order
  the pass visits them. The warning is printed for exactly the entries whose lookup yields
  0: those whose label is absent from the Symbol Table, and those whose label is defined
  at byte offset 0. Every entry is patched with the two bytes of the value looked up.
  \<open>Compile\<close> is the case where \<open>es\<close> is the table in the order of registration.
\<close>

theorem unresolved_label_reported_iff_zero:
  assumes "Compile_loop opc (New toks) = Inr p1"
    and "distinct es" and "set es = set (fixups p1)"
  shows "\<exists>p2. Compile_fixups es p1 = Inr p2 \<and>
           stdout p2 = stdout p1 @
             map (\<lambda>e. Possible_use_of_undefined_label (snd e))
               (filter (\<lambda>e. labels p1 (snd e) = None \<or> labels p1 (snd e) = Some 0) es) \<and>
           (\<forall>e \<in> set es.
              Output p2 ! nat (fst e) = lo_byte (go_map_index (labels p1) (snd e)) \<and>
              Output p2 ! nat (fst e + 1) = hi_byte (go_map_index (labels p1) (snd e))) \<and>
           (es = fixups p1 \<longrightarrow> Compile opc (New toks) = Inr p2)"
proof -
  have w: "concat (map (warning lb) xs) =
      map (\<lambda>e. Possible_use_of_undefined_label (snd e))
        (filter (\<lambda>e. lb (snd e) = None \<or> lb (snd e) = Some 0) xs)" for lb xs
    by (induction xs) (auto simp: warning_def go_map_index_def split: option.splits)
  from Compile_fixups_any_order [OF assms] obtain p2 p2'
    where c: "Compile opc (New toks) = Inr p2" and f: "Compile_fixups es p1 = Inr p2'"
      and b: "bytecode p2' = bytecode p2"
      and s: "stdout p2' = stdout p1 @ concat (map (warning (labels p1)) es)"
    by blast
  from c have b2: "bytecode p2 = foldl (patch (labels p1)) (bytecode p1) (fixups p1)"
    by (auto simp: Compile_eq_fixups [OF assms(1)])
  have "Output p2' ! nat (fst e) = lo_byte (go_map_index (labels p1) (snd e)) \<and>
        Output p2' ! nat (fst e + 1) = hi_byte (go_map_index (labels p1) (snd e))"
    if "e \<in> set es" for e
    using Compile_patched [OF assms(1), of e] that assms(3) by (simp add: Output_def b b2)
  moreover have "Compile opc (New toks) = Inr p2'" if "es = fixups p1"
    using f that assms(1) by (simp add: Compile_def andThen_def)
  ultimately show ?thesis using f s by (auto simp: w)
qed

theorem unresolved_label_reported_iff_zero_witness:
  "\<forall>opc. \<exists>p1 p2.
     Compile_loop opc (New [\<lparr>Type = token_NOP, Literal = ''nop''\<rparr>,
                            \<lparr>Type = token_LABEL, Literal = '':here''\<rparr>,
                            \<lparr>Type = token_JMP, Literal = ''jmp''\<rparr>,
                            \<lparr>Type = token_IDENT, Literal = ''here''\<rparr>,
                            \<lparr>Type = token_CALL, Literal = ''call''\<rparr>,
                            \<lparr>Type = token_IDENT, Literal = ''gone''\<rparr>]) = Inr p1 \<and>
     labels p1 ''here'' = Some 1 \<and> labels p1 ''gone'' = None \<and>
     fixups p1 = [(2, ''here''), (5, ''gone'')] \<and> stdout p1 = [] \<and>
     Compile_fixups [(5, ''gone''), (2, ''here'')] p1 = Inr p2 \<and>
     stdout p2 = [Possible_use_of_undefined_label ''gone'']"
proof
  fix opc
  let ?prog = "[\<lparr>Type = token_NOP, Literal = ''nop''\<rparr>,
                \<lparr>Type = token_LABEL, Literal = '':here''\<rparr>,
                \<lparr>Type = token_JMP, Literal = ''jmp''\<rparr>,
                \<lparr>Type = token_IDENT, Literal = ''here''\<rparr>,
                \<lparr>Type = token_CALL, Literal = ''call''\<rparr>,
                \<lparr>Type = token_IDENT, Literal = ''gone''\<rparr>]"
  have "\<exists>p1. Compile_loop opc (New ?prog) = Inr p1 \<and> labels p1 ''here'' = Some 1 \<and>
          labels p1 ''gone'' = None \<and>
          fixups p1 = [(2, ''here''), (5, ''gone'')] \<and> stdout p1 = []"
    by (simp add: run_defs jumpOp_def callOp_def nopOp_def)
  then obtain p1 where p1: "Compile_loop opc (New ?prog) = Inr p1"
    and lb: "labels p1 ''here'' = Some 1" "labels p1 ''gone'' = None"
    and fx: "fixups p1 = [(2, ''here''), (5, ''gone'')]"
    and out: "stdout p1 = []"
    by blast
  have d: "distinct [(5::int, ''gone''), (2, ''here'')]" by simp
  have e: "set [(5::int, ''gone''), (2, ''here'')] = set (fixups p1)" by (auto simp: fx)
  from unresolved_label_reported_iff_zero [OF p1 d e] p1 lb fx out
  show "\<exists>p1 p2. Compile_loop opc (New ?prog) = Inr p1 \<and>
     labels p1 ''here'' = Some 1 \<and> labels p1 ''gone'' = None \<and>
     fixups p1 = [(2, ''here''), (5, ''gone'')] \<and> stdout p1 = [] \<and>
     Compile_fixups [(5, ''gone''), (2, ''here'')] p1 = Inr p2 \<and>
     stdout p2 = [Possible_use_of_undefined_label ''gone'']"
    by auto
qed

text \<open>
  C2, at the failing input \<open>:start\<close>, \<open>jmp start\<close>. The label \<open>start\<close> is in the Symbol
  Table, at byte offset 0, when the fixup pass runs; the pass takes the looked-up value 0
  for a missing entry and prints the warning of an undefined label for it.
\<close>

theorem label_at_offset_zero_is_reported:
  "\<forall>opc. \<exists>p1 p2.
     Compile_loop opc (New [\<lparr>Type = token_LABEL, Literal = '':start''\<rparr>,
                            \<lparr>Type = token_JMP, Literal = ''jmp''\<rparr>,
                            \<lparr>Type = token_IDENT, Literal = ''start''\<rparr>]) = Inr p1 \<and>
     labels p1 ''start'' = Some 0 \<and> fixups p1 = [(1, ''start'')] \<and>
     Compile opc (New [\<lparr>Type = token_LABEL, Literal = '':start''\<rparr>,
                       \<lparr>Type = token_JMP, Literal = ''jmp''\<rparr>,
                       \<lparr>Type = token_IDENT, Literal = ''start''\<rparr>]) = Inr p2 \<and>
     stdout p2 = [Possible_use_of_undefined_label ''start''] \<and>
     Output p2 = [byte (opc opcode_JUMP_TO), 0, 0]"
  by (simp add: run_defs jumpOp_def)

text \<open>
  C1. Forward references. The program \<open>jmp target\<close>, \<open>:target\<close>, \<open>exit\<close> compiles to
  \<open>[JUMP_TO, 3, 0, EXIT]\<close>: the placeholder at offsets 1 and 2 is patched with the offset
  3 at which \<open>exit\<close> was written. In general, for every token stream: when the scan
  comes to a statement with a label operand (\<open>jmp\<close>, \<open>jmpz\<close>, \<open>jmpnz\<close>, \<open>goto\<close>, \<open>call\<close>,
  \<open>store\<close> or \<open>cmp\<close>), later comes to the label of that name, and reaches the end of the
  stream without coming to a label of that name again, then \<open>Compile\<close> returns and the
  two operand bytes of the statement are the low and the high byte of the length the
  buffer had at the label; read low byte first they are that length (modulo 65536).
  Also, after \<open>Compile\<close> the two bytes at every offset of the Fixup Table are the bytes of
  the offset the Symbol Table holds for the entry's label.
\<close>

theorem forward_label_reference:
  "(\<exists>p. Compile opc (New [\<lparr>Type = token_JMP, Literal = m1\<rparr>,
                          \<lparr>Type = token_IDENT, Literal = name\<rparr>,
                          \<lparr>Type = token_LABEL, Literal = CHR '':'' # name\<rparr>,
                          \<lparr>Type = token_EXIT, Literal = m2\<rparr>]) = Inr p \<and>
        Output p = [byte (opc opcode_JUMP_TO), 3, 0, byte (opc opcode_EXIT)]) \<and>
   (\<forall>toks i q0 a nm j q2 m p1.
        scan opc i (New toks) = Inr q0 \<and> references_label q0 a nm \<and>
        scan opc (Suc j) q0 = Inr q2 \<and> defines_label nm q2 \<and>
        scan opc (Suc m) q2 = Inr p1 \<and> Type (curToken p1) = token_EOF \<and>
        (\<forall>k<m. \<forall>q. scan opc (Suc k) q2 = Inr q \<longrightarrow> \<not> defines_label nm q) \<longrightarrow>
        (\<exists>p2. Compile opc (New toks) = Inr p2 \<and>
           Output p2 ! nat a = lo_byte (int (length (bytecode q2))) \<and>
           Output p2 ! nat (a + 1) = hi_byte (int (length (bytecode q2))) \<and>
           uint (Output p2 ! nat a) + 256 * uint (Output p2 ! nat (a + 1))
             = int (length (bytecode q2)) mod 65536)) \<and>
   (\<forall>toks p1. Compile_loop opc (New toks) = Inr p1 \<longrightarrow>
        (\<exists>p2. Compile opc (New toks) = Inr p2 \<and>
           (\<forall>(a, n) \<in> set (fixups p1). \<forall>v. labels p1 n = Some v \<longrightarrow>
              Output p2 ! nat a = lo_byte v \<and> Output p2 ! nat (a + 1) = hi_byte v)))"
proof (intro conjI allI impI)
  show "\<exists>p. Compile opc (New [\<lparr>Type = token_JMP, Literal = m1\<rparr>,
                          \<lparr>Type = token_IDENT, Literal = name\<rparr>,
                          \<lparr>Type = token_LABEL, Literal = CHR '':'' # name\<rparr>,
                          \<lparr>Type = token_EXIT, Literal = m2\<rparr>]) = Inr p \<and>
        Output p = [byte (opc opcode_JUMP_TO), 3, 0, byte (opc opcode_EXIT)]"
    by (simp add: run_defs jumpOp_def exitOp_def)
next
  fix toks i q0 a nm j q2 m p1
  assume "scan opc i (New toks) = Inr q0 \<and> references_label q0 a nm \<and>
        scan opc (Suc j) q0 = Inr q2 \<and> defines_label nm q2 \<and>
        scan opc (Suc m) q2 = Inr p1 \<and> Type (curToken p1) = token_EOF \<and>
        (\<forall>k<m. \<forall>q. scan opc (Suc k) q2 = Inr q \<longrightarrow> \<not> defines_label nm q)"
  then show "\<exists>p2. Compile opc (New toks) = Inr p2 \<and>
           Output p2 ! nat a = lo_byte (int (length (bytecode q2))) \<and>
           Output p2 ! nat (a + 1) = hi_byte (int (length (bytecode q2))) \<and>
           uint (Output p2 ! nat a) + 256 * uint (Output p2 ! nat (a + 1))
             = int (length (bytecode q2)) mod 65536"
    using forward_reference_resolves [of opc i toks q0 a nm j q2 m p1] by blast
next
  fix toks p1 assume p1: "Compile_loop opc (New toks) = Inr p1"
  have "Output (p1\<lparr>bytecode := foldl (patch (labels p1)) (bytecode p1) (fixups p1),
            stdout := stdout p1 @ concat (map (warning (labels p1)) (fixups p1))\<rparr>) ! nat a
          = lo_byte v \<and>
        Output (p1\<lparr>bytecode := foldl (patch (labels p1)) (bytecode p1) (fixups p1),
            stdout := stdout p1 @ concat (map (warning (labels p1)) (fixups p1))\<rparr>) ! nat (a + 1)
          = hi_byte v"
    if "(a, n) \<in> set (fixups p1)" "labels p1 n = Some v" for a n v
    using Compile_patched [OF p1 that(1)] that(2) by (simp add: Output_def go_map_index_def)
  then show "\<exists>p2. Compile opc (New toks) = Inr p2 \<and>
           (\<forall>(a, n) \<in> set (fixups p1). \<forall>v. labels p1 n = Some v \<longrightarrow>
              Output p2 ! nat a = lo_byte v \<and> Output p2 ! nat (a + 1) = hi_byte v)"
    unfolding Compile_eq_fixups [OF p1] by blast
qed

theorem forward_label_reference_witness:
  "\<forall>opc. \<exists>q0 q2 p1 p2.
     scan opc (Suc 0) (New [\<lparr>Type = token_NOP, Literal = ''nop''\<rparr>,
                            \<lparr>Type = token_JMP, Literal = ''jmp''\<rparr>,
                            \<lparr>Type = token_IDENT, Literal = ''target''\<rparr>,
                            \<lparr>Type = token_NOP, Literal = ''nop''\<rparr>,
                            \<lparr>Type = token_LABEL, Literal = '':target''\<rparr>,
                            \<lparr>Type = token_EXIT, Literal = ''exit''\<rparr>]) = Inr q0 \<and>
     references_label q0 2 ''target'' \<and>
     scan opc (Suc (Suc 0)) q0 = Inr q2 \<and> defines_label ''target'' q2 \<and>
     length (bytecode q2) = 5 \<and>
     scan opc (Suc (Suc 0)) q2 = Inr p1 \<and> Type (curToken p1) = token_EOF \<and>
     Compile opc (New [\<lparr>Type = token_NOP, Literal = ''nop''\<rparr>,
                       \<lparr>Type = token_JMP, Literal = ''jmp''\<rparr>,
                       \<lparr>Type = token_IDENT, Literal = ''target''\<rparr>,
                       \<lparr>Type = token_NOP, Literal = ''nop''\<rparr>,
                       \<lparr>Type = token_LABEL, Literal = '':target''\<rparr>,
                       \<lparr>Type = token_EXIT, Literal = ''exit''\<rparr>]) = Inr p2 \<and>
     Output p2 ! 2 = 5 \<and> Output p2 ! 3 = 0"
proof
  fix opc
  let ?prog = "[\<lparr>Type = token_NOP, Literal = ''nop''\<rparr>,
                \<lparr>Type = token_JMP, Literal = ''jmp''\<rparr>,
                \<lparr>Type = token_IDENT, Literal = ''target''\<rparr>,
                \<lparr>Type = token_NOP, Literal = ''nop''\<rparr>,
                \<lparr>Type = token_LABEL, Literal = '':target''\<rparr>,
                \<lparr>Type = token_EXIT, Literal = ''exit''\<rparr>]"
  have "\<exists>q0. scan opc (Suc 0) (New ?prog) = Inr q0 \<and> references_label q0 2 ''target'' \<and>
          (\<exists>q2. scan opc (Suc (Suc 0)) q0 = Inr q2 \<and> defines_label ''target'' q2 \<and>
             length (bytecode q2) = 5 \<and>
             (\<exists>p1. scan opc (Suc (Suc 0)) q2 = Inr p1 \<and> Type (curToken p1) = token_EOF \<and>
                (\<forall>k<Suc 0. \<forall>q. scan opc (Suc k) q2 = Inr q \<longrightarrow>
                   \<not> defines_label ''target'' q)))"
    by (simp add: run_defs references_label_def defines_label_def nopOp_def jumpOp_def
        exitOp_def)
  then obtain q0 q2 p1 where s0: "scan opc (Suc 0) (New ?prog) = Inr q0"
    and ref: "references_label q0 2 ''target''"
    and s1: "scan opc (Suc (Suc 0)) q0 = Inr q2" and df: "defines_label ''target'' q2"
    and len: "length (bytecode q2) = 5"
    and s2: "scan opc (Suc (Suc 0)) q2 = Inr p1" and eof: "Type (curToken p1) = token_EOF"
    and last: "\<forall>k<Suc 0. \<forall>q. scan opc (Suc k) q2 = Inr q \<longrightarrow> \<not> defines_label ''target'' q"
    by blast
  note general = forward_label_reference [of opc "''jmp''" "''target''" "''exit''",
      THEN conjunct2, THEN conjunct1, rule_format,
      of "Suc 0" ?prog q0 2 "''target''" "Suc 0" q2 "Suc 0" p1]
  from s0 ref s1 df s2 eof last have "\<exists>p2. Compile opc (New ?prog) = Inr p2 \<and>
           Output p2 ! nat 2 = lo_byte (int (length (bytecode q2))) \<and>
           Output p2 ! nat (2 + 1) = hi_byte (int (length (bytecode q2))) \<and>
           uint (Output p2 ! nat 2) + 256 * uint (Output p2 ! nat (2 + 1))
             = int (length (bytecode q2)) mod 65536"
    by (intro general) simp
  then obtain p2 where p2: "Compile opc (New ?prog) = Inr p2"
    and lo: "Output p2 ! nat 2 = lo_byte (int (length (bytecode q2)))"
    and hi: "Output p2 ! nat (2 + 1) = hi_byte (int (length (bytecode q2)))"
    by blast
  from lo hi have "Output p2 ! 2 = 5" "Output p2 ! 3 = 0"
    by (simp_all add: len lo_byte_def hi_byte_def byte_def go_rem_nonneg go_quot_nonneg
        numeral_2_eq_2 numeral_3_eq_3)
  with s0 ref s1 df len s2 eof p2
  show "\<exists>q0 q2 p1 p2. scan opc (Suc 0) (New ?prog) = Inr q0 \<and>
     references_label q0 2 ''target'' \<and>
     scan opc (Suc (Suc 0)) q0 = Inr q2 \<and> defines_label ''target'' q2 \<and>
     length (bytecode q2) = 5 \<and>
     scan opc (Suc (Suc 0)) q2 = Inr p1 \<and> Type (curToken p1) = token_EOF \<and>
     Compile opc (New ?prog) = Inr p2 \<and> Output p2 ! 2 = 5 \<and> Output p2 ! 3 = 0"
    by blast
qed

text \<open>
  C6. Register round-trip. For every register index \<open>r\<close> from 0 to 15, the single
  statement \<open>store #r, 42\<close> compiles to exactly the four bytes \<open>[INT_STORE, r, 42, 0]\<close>.
\<close>

theorem store_register_roundtrip:
  assumes "r \<le> 15"
  shows "\<exists>p. Compile opc (New [\<lparr>Type = token_STORE, Literal = m\<rparr>,
                                \<lparr>Type = token_IDENT, Literal = register_text r\<rparr>,
                                \<lparr>Type = token_COMMA, Literal = c\<rparr>,
                                \<lparr>Type = token_INT, Literal = ''42''\<rparr>]) = Inr p \<and>
             Output p = [byte (opc opcode_INT_STORE), of_nat r, 42, 0]"
  by (simp add: run_defs storeOp_def getRegister_register_text [OF assms] ParseInt0_42)

theorem store_register_roundtrip_witness:
  "\<forall>opc. \<exists>p. Compile opc (New [\<lparr>Type = token_STORE, Literal = ''store''\<rparr>,
                                \<lparr>Type = token_IDENT, Literal = ''#15''\<rparr>,
                                \<lparr>Type = token_COMMA, Literal = '',''\<rparr>,
                                \<lparr>Type = token_INT, Literal = ''42''\<rparr>]) = Inr p \<and>
             Output p = [byte (opc opcode_INT_STORE), 15, 42, 0]"
proof
  fix opc
  have "(15::nat) \<le> 15" by simp
  from store_register_roundtrip [OF this, of opc "''store''" "'',''"]
  show "\<exists>p. Compile opc (New [\<lparr>Type = token_STORE, Literal = ''store''\<rparr>,
                                \<lparr>Type = token_IDENT, Literal = ''#15''\<rparr>,
                                \<lparr>Type = token_COMMA, Literal = '',''\<rparr>,
                                \<lparr>Type = token_INT, Literal = ''42''\<rparr>]) = Inr p \<and>
             Output p = [byte (opc opcode_INT_STORE), 15, 42, 0]"
    by (simp add: register_text_def)
qed

text \<open>
  C9. A register outside 0..15 ends the compilation. For \<open>store lit, v\<close> where the text
  \<open>lit\<close> after its \<open>#\<close> reads as an integer outside 0..15 (\<open>#16\<close> among them), the run
  ends in \<open>os.Exit(1)\<close> inside \<open>getRegister\<close>, having printed the out-of-bounds message:
  \<open>storeOp\<close> has appended nothing, and \<open>Compile\<close> does not return a state from which a
  caller could take or write the bytecode.
\<close>

theorem register_out_of_range_aborts:
  assumes "strconv_Atoi (strings_TrimPrefix lit ''#'') = Some i" and "i < 0 \<or> 15 < i"
  shows "Compile opc (New [\<lparr>Type = token_STORE, Literal = m\<rparr>,
                           \<lparr>Type = token_IDENT, Literal = lit\<rparr>,
                           \<lparr>Type = token_COMMA, Literal = c\<rparr>,
                           \<lparr>Type = token_INT, Literal = v\<rparr>])
         = Inl (Exit 1 [Register_out_of_bounds lit])"
  using assms by (auto simp: run_defs storeOp_def getRegister_def)

theorem register_out_of_range_aborts_witness:
  "\<forall>opc. strconv_Atoi (strings_TrimPrefix ''#16'' ''#'') = Some 16 \<and>
     Compile opc (New [\<lparr>Type = token_STORE, Literal = ''store''\<rparr>,
                       \<lparr>Type = token_IDENT, Literal = ''#16''\<rparr>,
                       \<lparr>Type = token_COMMA, Literal = '',''\<rparr>,
                       \<lparr>Type = token_INT, Literal = ''1''\<rparr>])
       = Inl (Exit 1 [Register_out_of_bounds ''#16''])"
proof
  fix opc
  have a: "strconv_Atoi (strings_TrimPrefix ''#16'' ''#'') = Some 16"
    by (simp add: strings_TrimPrefix_def strings_HasPrefix_def strconv_defs)
  have b: "(16::int) < 0 \<or> 15 < (16::int)" by simp
  from register_out_of_range_aborts [OF a b, of opc "''store''" "'',''" "''1''"] a
  show "strconv_Atoi (strings_TrimPrefix ''#16'' ''#'') = Some 16 \<and>
     Compile opc (New [\<lparr>Type = token_STORE, Literal = ''store''\<rparr>,
                       \<lparr>Type = token_IDENT, Literal = ''#16''\<rparr>,
                       \<lparr>Type = token_COMMA, Literal = '',''\<rparr>,
                       \<lparr>Type = token_INT, Literal = ''1''\<rparr>])
       = Inl (Exit 1 [Register_out_of_bounds ''#16''])"
    by simp
qed

text \<open>
  C7. Numeric fields. Every encoder that writes a numeric field (the target of \<open>jmp\<close>,
  \<open>call\<close> and \<open>trap\<close>, the immediate and the string length of \<open>store\<close> and \<open>cmp\<close>) and
  the fixup pass write exactly two bytes, low byte first: with \<open>len1 = v % 256\<close> and
  \<open>len2 = (v - len1) / 256\<close> in Go's arithmetic, the bytes are \<open>len1\<close> and \<open>len2\<close>, each
  reduced modulo 256. For \<open>v \<ge> 0\<close> these are \<open>v mod 256\<close> and \<open>v div 256\<close>; for \<open>v\<close> in
  \<open>[0, 65535]\<close> the two bytes read back as \<open>v\<close>; a larger \<open>v\<close> wraps to \<open>v mod 65536\<close>.
  No encoder fails on any value of \<open>v\<close>.
\<close>

theorem numeric_fields_little_endian:
  "(\<forall>v. uint (lo_byte v) = go_rem v 256 mod 256 \<and>
        uint (hi_byte v) = go_quot (v - go_rem v 256) 256 mod 256) \<and>
   (\<forall>v. 0 \<le> v \<longrightarrow> go_rem v 256 = v mod 256 \<and> go_quot (v - go_rem v 256) 256 = v div 256) \<and>
   (\<forall>v. 0 \<le> v \<and> v \<le> 65535 \<longrightarrow> uint (lo_byte v) + 256 * uint (hi_byte v) = v) \<and>
   (\<forall>v. 0 \<le> v \<longrightarrow> uint (lo_byte v) + 256 * uint (hi_byte v) = v mod 65536) \<and>
   (\<forall>operator (p :: Compiler). Type (peekToken p) = token_INT \<longrightarrow>
      (\<exists>p'. jumpOp operator p = Inr p' \<and>
         bytecode p' = bytecode p @ [byte operator, lo_byte (ParseInt0 (Literal (peekToken p))),
                                     hi_byte (ParseInt0 (Literal (peekToken p)))])) \<and>
   (\<forall>p :: Compiler. Type (peekToken p) = token_INT \<longrightarrow>
      (\<exists>p'. callOp opc p = Inr p' \<and>
         bytecode p' = bytecode p @ [byte (opc opcode_STACK_CALL),
                                     lo_byte (ParseInt0 (Literal (peekToken p))),
                                     hi_byte (ParseInt0 (Literal (peekToken p)))])) \<and>
   (\<forall>p :: Compiler. Type (peekToken p) = token_INT \<longrightarrow>
      (\<exists>p'. trapOp opc p = Inr p' \<and>
         bytecode p' = bytecode p @ [byte (opc opcode_TRAP_OP),
                                     lo_byte (ParseInt0 (Literal (peekToken p))),
                                     hi_byte (ParseInt0 (Literal (peekToken p)))])) \<and>
   (\<forall>(p :: Compiler) reg c lit rest.
      Type (peekToken p) = token_IDENT \<and> getRegister p (Literal (peekToken p)) = Inr reg \<and>
      l p = \<lparr>Type = token_COMMA, Literal = c\<rparr> # \<lparr>Type = token_INT, Literal = lit\<rparr> # rest \<longrightarrow>
      (\<exists>p'. storeOp opc p = Inr p' \<and>
         bytecode p' = bytecode p @ [byte (opc opcode_INT_STORE), reg,
                                     lo_byte (ParseInt0 lit), hi_byte (ParseInt0 lit)]) \<and>
      (\<exists>p'. cmpOp opc p = Inr p' \<and>
         bytecode p' = bytecode p @ [byte (opc opcode_CMP_IMMEDIATE), reg,
                                     lo_byte (ParseInt0 lit), hi_byte (ParseInt0 lit)])) \<and>
   (\<forall>(p :: Compiler) reg c lit rest.
      Type (peekToken p) = token_IDENT \<and> getRegister p (Literal (peekToken p)) = Inr reg \<and>
      l p = \<lparr>Type = token_COMMA, Literal = c\<rparr> # \<lparr>Type = token_STRING, Literal = lit\<rparr> # rest \<longrightarrow>
      (\<exists>p'. storeOp opc p = Inr p' \<and>
         bytecode p' = bytecode p @ [byte (opc opcode_STRING_STORE), reg,
                                     lo_byte (int (length lit)), hi_byte (int (length lit))]
                                  @ map byte_of_char lit) \<and>
      (\<exists>p'. cmpOp opc p = Inr p' \<and>
         bytecode p' = bytecode p @ [byte (opc opcode_CMP_STRING), reg,
                                     lo_byte (int (length lit)), hi_byte (int (length lit))]
                                  @ map byte_of_char lit)) \<and>
   (\<forall>(p :: Compiler) a n. 0 \<le> a \<and> a + 2 \<le> int (length (bytecode p)) \<longrightarrow>
      (\<exists>p'. fixup (a, n) p = Inr p' \<and>
         bytecode p' = (bytecode p)[nat a := lo_byte (go_map_index (labels p) n),
                                    nat (a + 1) := hi_byte (go_map_index (labels p) n)]))"
proof -
  have wrap: "uint (lo_byte v) + 256 * uint (hi_byte v) = v mod 65536" if "0 \<le> v" for v
  proof -
    have "v mod (256 * 256) = 256 * (v div 256 mod 256) + v mod 256"
      by (rule zmod_zmult2_eq) simp
    with that show ?thesis
      by (simp add: uint_lo_byte hi_byte_def uint_byte go_quot_exact go_quot_nonneg)
  qed
  have bytes: "uint (lo_byte v) = go_rem v 256 mod 256 \<and>
        uint (hi_byte v) = go_quot (v - go_rem v 256) 256 mod 256" for v
    by (simp add: lo_byte_def hi_byte_def uint_byte)
  have nonneg: "go_rem v 256 = v mod 256 \<and> go_quot (v - go_rem v 256) 256 = v div 256"
    if "0 \<le> v" for v
  proof
    show "go_rem v 256 = v mod 256" using that by (rule go_rem_nonneg)
    have "go_quot (v - go_rem v 256) 256 = go_quot v 256" by (rule go_quot_exact)
    also have "\<dots> = v div 256" using that by (rule go_quot_nonneg)
    finally show "go_quot (v - go_rem v 256) 256 = v div 256" .
  qed
  show ?thesis
    using wrap bytes nonneg little_endian_in_range jumpOp_INT callOp_INT trapOp_INT
      storeOp_INT storeOp_STRING cmpOp_INT cmpOp_STRING fixup_bytes
    by (intro conjI allI impI; (elim conjE)?) blast+
qed

theorem numeric_fields_little_endian_witness:
  "\<forall>opc. \<exists>p'.
     jumpOp (opc opcode_JUMP_TO)
       (New [\<lparr>Type = token_JMP, Literal = ''jmp''\<rparr>, \<lparr>Type = token_INT, Literal = ''70000''\<rparr>])
       = Inr p' \<and>
     length (bytecode p') = 3 \<and> uint (bytecode p' ! 1) = 112 \<and> uint (bytecode p' ! 2) = 17"
proof
  fix opc
  let ?p = "New [\<lparr>Type = token_JMP, Literal = ''jmp''\<rparr>, \<lparr>Type = token_INT, Literal = ''70000''\<rparr>]"
  have t: "Type (peekToken ?p) = token_INT" and lit: "Literal (peekToken ?p) = ''70000''"
    and bc: "bytecode ?p = []"
    by (simp_all add: New_def nextToken_sel NextToken_simps)
  have v: "ParseInt0 ''70000'' = 70000" by (simp add: strconv_defs)
  note nf = numeric_fields_little_endian [of opc]
  note j = nf [THEN conjunct2, THEN conjunct2, THEN conjunct2, THEN conjunct2, THEN conjunct1,
    rule_format, OF t]
  from j [of "opc opcode_JUMP_TO"] obtain p' where p': "jumpOp (opc opcode_JUMP_TO) ?p = Inr p'"
    and b: "bytecode p' = bytecode ?p @ [byte (opc opcode_JUMP_TO),
              lo_byte (ParseInt0 (Literal (peekToken ?p))),
              hi_byte (ParseInt0 (Literal (peekToken ?p)))]"
    by blast
  note bytes = nf [THEN conjunct1, rule_format, of 70000]
  have "(0::int) \<le> 70000" by simp
  note nn = nf [THEN conjunct2, THEN conjunct1, rule_format, OF this]
  from bytes [THEN conjunct1] nn [THEN conjunct1] have "uint (lo_byte 70000) = 112" by simp
  moreover
  from bytes [THEN conjunct2] nn [THEN conjunct2] have "uint (hi_byte 70000) = 17" by simp
  ultimately have "uint (lo_byte 70000) = 112" "uint (hi_byte 70000) = 17" by simp_all
  with p' b show "\<exists>p'. jumpOp (opc opcode_JUMP_TO) ?p = Inr p' \<and>
     length (bytecode p') = 3 \<and> uint (bytecode p' ! 1) = 112 \<and> uint (bytecode p' ! 2) = 17"
    by (simp add: bc lit v)
qed

text \<open>
  C3, at the failing input \<open>trap foo\<close>, \<open>exit\<close>. The default branch of \<open>trapOp\<close> prints
  \<open>Fail!\<close> and returns: \<open>Compile\<close> returns with the bytecode \<open>[EXIT]\<close>. The same holds
  at any state of the scan: a \<open>trap\<close> whose operand is not an integer appends nothing,
  and the loop goes on with the statement after the operand.
\<close>

theorem trap_with_label_is_not_fatal:
  "(\<exists>p. Compile opc (New [\<lparr>Type = token_TRAP, Literal = ''trap''\<rparr>,
                          \<lparr>Type = token_IDENT, Literal = ''foo''\<rparr>,
                          \<lparr>Type = token_EXIT, Literal = ''exit''\<rparr>]) = Inr p \<and>
        Output p = [byte (opc opcode_EXIT)] \<and> stdout p = [Fail]) \<and>
   (\<forall>p :: Compiler. Type (curToken p) = token_TRAP \<and> Type (peekToken p) \<noteq> token_INT \<longrightarrow>
        Compile_step opc p = Inr (printf Fail (nextToken p)) \<and>
        Compile_loop opc p = Compile_loop opc (printf Fail (nextToken (nextToken p))))"
proof (intro conjI allI impI)
  show "\<exists>p. Compile opc (New [\<lparr>Type = token_TRAP, Literal = ''trap''\<rparr>,
                          \<lparr>Type = token_IDENT, Literal = ''foo''\<rparr>,
                          \<lparr>Type = token_EXIT, Literal = ''exit''\<rparr>]) = Inr p \<and>
        Output p = [byte (opc opcode_EXIT)] \<and> stdout p = [Fail]"
    by (simp add: run_defs trapOp_def exitOp_def)
next
  fix p :: Compiler
  assume a: "Type (curToken p) = token_TRAP \<and> Type (peekToken p) \<noteq> token_INT"
  then show s: "Compile_step opc p = Inr (printf Fail (nextToken p))"
    by (simp add: Compile_step_def trapOp_def Let_def nextToken_sel)
  from a show "Compile_loop opc p = Compile_loop opc (printf Fail (nextToken (nextToken p)))"
    by (simp add: Compile_loop.simps [of opc p] s nextToken_printf)
qed

theorem trap_with_label_is_not_fatal_witness:
  "\<forall>opc. \<exists>q.
     scan opc (Suc 0) (New [\<lparr>Type = token_EXIT, Literal = ''exit''\<rparr>,
                            \<lparr>Type = token_TRAP, Literal = ''trap''\<rparr>,
                            \<lparr>Type = token_IDENT, Literal = ''foo''\<rparr>,
                            \<lparr>Type = token_EXIT, Literal = ''exit''\<rparr>]) = Inr q \<and>
     bytecode q = [byte (opc opcode_EXIT)] \<and>
     Type (curToken q) = token_TRAP \<and> Type (peekToken q) \<noteq> token_INT \<and>
     Compile_step opc q = Inr (printf Fail (nextToken q))"
proof
  fix opc
  let ?prog = "[\<lparr>Type = token_EXIT, Literal = ''exit''\<rparr>,
                \<lparr>Type = token_TRAP, Literal = ''trap''\<rparr>,
                \<lparr>Type = token_IDENT, Literal = ''foo''\<rparr>,
                \<lparr>Type = token_EXIT, Literal = ''exit''\<rparr>]"
  have "\<exists>q. scan opc (Suc 0) (New ?prog) = Inr q \<and> bytecode q = [byte (opc opcode_EXIT)] \<and>
          Type (curToken q) = token_TRAP \<and> Type (peekToken q) \<noteq> token_INT"
    by (simp add: run_defs exitOp_def)
  then obtain q where q: "scan opc (Suc 0) (New ?prog) = Inr q"
    and b: "bytecode q = [byte (opc opcode_EXIT)]"
    and t: "Type (curToken q) = token_TRAP \<and> Type (peekToken q) \<noteq> token_INT"
    by blast
  from trap_with_label_is_not_fatal [of opc, THEN conjunct2, rule_format, OF t]
  have "Compile_step opc q = Inr (printf Fail (nextToken q))" by simp
  with q b t show "\<exists>q. scan opc (Suc 0) (New ?prog) = Inr q \<and>
     bytecode q = [byte (opc opcode_EXIT)] \<and>
     Type (curToken q) = token_TRAP \<and> Type (peekToken q) \<noteq> token_INT \<and>
     Compile_step opc q = Inr (printf Fail (nextToken q))"
    by blast
qed

text \<open>
  C4, at the failing input \<open>jmp "x"\<close>: \<open>jumpOp\<close> has appended the opcode before it looks at
  the operand and has no branch for an operand that is neither an integer nor an
  identifier, so \<open>Compile\<close> returns with the bytecode \<open>[JUMP_TO]\<close>, the two operand bytes
  missing, and nothing printed.
\<close>

theorem jump_with_string_operand:
  "\<forall>opc. \<exists>p. Compile opc (New [\<lparr>Type = token_JMP, Literal = ''jmp''\<rparr>,
                                \<lparr>Type = token_STRING, Literal = ''x''\<rparr>]) = Inr p \<and>
            Output p = [byte (opc opcode_JUMP_TO)] \<and> stdout p = []"
  by (simp add: run_defs jumpOp_def)

text \<open>
  C5, at the failing inputs \<open>add #1, 5, #2\<close> and \<open>add 5\<close>. In the first, the integer where
  the second register is expected makes \<open>mathOperation\<close> return without a message; the
  compilation goes on and reports the tokens left over as unhandled. In the second the
  error is fatal, and the message names the kind of the current token (\<open>ADD\<close>) where the
  offending one is \<open>INT\<close>.
\<close>

theorem math_with_integer_operand:
  "\<forall>opc.
     (\<exists>p. Compile opc (New [\<lparr>Type = token_ADD, Literal = ''add''\<rparr>,
                            \<lparr>Type = token_IDENT, Literal = ''#1''\<rparr>,
                            \<lparr>Type = token_COMMA, Literal = '',''\<rparr>,
                            \<lparr>Type = token_INT, Literal = ''5''\<rparr>,
                            \<lparr>Type = token_COMMA, Literal = '',''\<rparr>,
                            \<lparr>Type = token_IDENT, Literal = ''#2''\<rparr>]) = Inr p \<and>
          Output p = [] \<and>
          stdout p = [Unhandled_token \<lparr>Type = token_COMMA, Literal = '',''\<rparr>,
                      Unhandled_token \<lparr>Type = token_IDENT, Literal = ''#2''\<rparr>]) \<and>
     Compile opc (New [\<lparr>Type = token_ADD, Literal = ''add''\<rparr>,
                       \<lparr>Type = token_INT, Literal = ''5''\<rparr>])
       = Inl (Exit 1 [Expected_next_token token_IDENT token_ADD])"
  by (simp add: run_defs mathOperation_def getRegister_def strconv_defs)

end
